(* ===== verification/SP_Prelude.thy ===== *)
theory SP_Prelude
  imports Main "HOL-Library.Word"
begin

text \<open>
  Shared vocabulary of the development.  A C function of the extension that may raise a Ruby
  exception, block, loop or change state is an action: from a state it either never returns
  (\<^term>\<open>None\<close>) or gives an outcome, an error or a value, together with the state it leaves.
  The state survives an error, because \<open>rb_ensure\<close> handlers run after a raise.
  The \<open>goto retry\<close> and \<open>for (;;)\<close> loops of the source are all instances of one combinator,
  \<open>loopE\<close>, whose rules (partial correctness, termination) are proved here once.
\<close>

unbundle bit_operations_syntax

section \<open>Actions\<close>

type_synonym ('s, 'e, 'a) act = "'s \<Rightarrow> (('e + 'a) \<times> 's) option"

named_theorems run_simps "what running a combinator from a given state computes"
named_theorems keeps_intros "frame rules: an action leaves a projection of the state unchanged"

definition ret :: "'a \<Rightarrow> ('s, 'e, 'a) act" where
  "ret x = (\<lambda>s. Some (Inr x, s))"

definition throw :: "'e \<Rightarrow> ('s, 'e, 'a) act" where
  "throw e = (\<lambda>s. Some (Inl e, s))"

definition bindE :: "('s, 'e, 'a) act \<Rightarrow> ('a \<Rightarrow> ('s, 'e, 'b) act) \<Rightarrow> ('s, 'e, 'b) act" where
  "bindE m f = (\<lambda>s. case m s of
       None \<Rightarrow> None
     | Some (Inl e, s') \<Rightarrow> Some (Inl e, s')
     | Some (Inr x, s') \<Rightarrow> f x s')"

definition readS :: "('s \<Rightarrow> 'a) \<Rightarrow> ('s, 'e, 'a) act" where
  "readS f = (\<lambda>s. Some (Inr (f s), s))"

definition modS :: "('s \<Rightarrow> 's) \<Rightarrow> ('s, 'e, unit) act" where
  "modS f = (\<lambda>s. Some (Inr (), f s))"

definition liftE :: "'e + 'a \<Rightarrow> ('s, 'e, 'a) act" where
  "liftE r = (\<lambda>s. Some (r, s))"

definition whenE :: "bool \<Rightarrow> ('s, 'e, unit) act \<Rightarrow> ('s, 'e, unit) act" where
  "whenE b m = (if b then m else ret ())"

lemma ret_run [run_simps]: "ret x s = Some (Inr x, s)"
  by (simp add: ret_def)

lemma throw_run [run_simps]: "throw e s = Some (Inl e, s)"
  by (simp add: throw_def)

lemma readS_run [run_simps]: "readS f s = Some (Inr (f s), s)"
  by (simp add: readS_def)

lemma modS_run [run_simps]: "modS f s = Some (Inr (), f s)"
  by (simp add: modS_def)

lemma liftE_run [run_simps]: "liftE r s = Some (r, s)"
  by (simp add: liftE_def)

lemma whenE_run [run_simps]: "whenE b m s = (if b then m s else Some (Inr (), s))"
  by (simp add: whenE_def ret_run)

lemma bindE_run [run_simps]:
  "bindE m f s = (case m s of None \<Rightarrow> None | Some (Inl e, s') \<Rightarrow> Some (Inl e, s')
     | Some (Inr x, s') \<Rightarrow> f x s')"
  by (simp add: bindE_def)

lemma bindE_ret [simp]: "bindE (ret x) f = f x"
  by (simp add: bindE_def ret_def)

lemma liftE_Inr: "liftE (Inr x) = ret x"
  by (simp add: liftE_def ret_def)

lemma bindE_throw [simp]: "bindE (throw e) f = throw e"
  by (simp add: bindE_def throw_def)

lemma map_sum_eq_Inl [simp]: "map_sum id g r = Inl e \<longleftrightarrow> r = Inl e"
  by (cases r) simp_all

lemma bindE_liftE: "bindE (liftE r) f = (case r of Inl e \<Rightarrow> throw e | Inr x \<Rightarrow> f x)"
  by (simp add: bindE_def liftE_def throw_def fun_eq_iff split: sum.split)

lemma bindE_ret_right [simp]: "bindE m ret = m"
  by (rule ext) (simp add: bindE_def ret_def split: option.splits prod.splits sum.splits)

lemma bindE_readS: "bindE (readS f) g s = g (f s) s"
  by (simp add: bindE_def readS_def)

lemma bindE_assoc: "bindE (bindE m f) g = bindE m (\<lambda>x. bindE (f x) g)"
  by (rule ext) (simp add: bindE_def split: option.splits prod.splits sum.splits)

lemma bindE_if: "bindE (if c then m else n) g = (if c then bindE m g else bindE n g)"
  by simp

lemma bindE_cases:
  assumes "bindE m f s = Some (r, t)"
  obtains (err) e where "m s = Some (Inl e, t)" and "r = Inl e"
    | (val) x u where "m s = Some (Inr x, u)" and "f x u = Some (r, t)"
  using assms by (auto simp: bindE_def split: option.splits prod.splits sum.splits)

lemma bindE_Inr_cases:
  assumes "bindE m f s = Some (Inr y, t)"
  obtains x u where "m s = Some (Inr x, u)" and "f x u = Some (Inr y, t)"
  using assms by (auto elim: bindE_cases)

section \<open>Loops\<close>

text \<open>
  \<open>loopE body x\<close> runs \<open>body\<close> until it answers \<^term>\<open>Inr a\<close>; \<^term>\<open>Inl x'\<close> asks for another
  round with the loop variable \<open>x'\<close>.  \<^term>\<open>None\<close> is the loop that never leaves.
\<close>

partial_function (option) loop_from ::
  "('x \<Rightarrow> ('s, 'e, 'x + 'a) act) \<Rightarrow> 'x \<times> 's \<Rightarrow> (('e + 'a) \<times> 's) option" where
  "loop_from body c = (case body (fst c) (snd c) of
       None \<Rightarrow> None
     | Some p \<Rightarrow> (case fst p of
           Inl e \<Rightarrow> Some (Inl e, snd p)
         | Inr q \<Rightarrow> (case q of
               Inl x' \<Rightarrow> loop_from body (x', snd p)
             | Inr a \<Rightarrow> Some (Inr a, snd p))))"

declare loop_from.simps [code]

definition loopE :: "('x \<Rightarrow> ('s, 'e, 'x + 'a) act) \<Rightarrow> 'x \<Rightarrow> ('s, 'e, 'a) act" where
  "loopE body x = (\<lambda>s. loop_from body (x, s))"

lemma loopE_again:
  "body x s = Some (Inr (Inl x'), s') \<Longrightarrow> loopE body x s = loopE body x' s'"
  by (simp add: loopE_def loop_from.simps [of body "(x, s)"])

lemma loopE_stop:
  "body x s = Some (Inr (Inr a), s') \<Longrightarrow> loopE body x s = Some (Inr a, s')"
  by (simp add: loopE_def loop_from.simps [of body "(x, s)"])

lemma loopE_raise:
  "body x s = Some (Inl e, s') \<Longrightarrow> loopE body x s = Some (Inl e, s')"
  by (simp add: loopE_def loop_from.simps [of body "(x, s)"])

text \<open>One round, for evaluating a loop at a closed state.\<close>

lemma loopE_unfold:
  "loopE body x s = (case body x s of
       None \<Rightarrow> None
     | Some (Inl e, s') \<Rightarrow> Some (Inl e, s')
     | Some (Inr (Inl x'), s') \<Rightarrow> loopE body x' s'
     | Some (Inr (Inr a), s') \<Rightarrow> Some (Inr a, s'))"
  by (simp add: loopE_def loop_from.simps [of body "(x, s)"] split: option.splits sum.splits)

text \<open>Partial correctness: an invariant of the rounds decides what the loop may leave behind.\<close>

lemma loopE_rule:
  assumes ret: "loopE body x s = Some (r, t)"
    and init: "I x s"
    and again: "\<And>x s x' s'. I x s \<Longrightarrow> body x s = Some (Inr (Inl x'), s') \<Longrightarrow> I x' s'"
    and stop: "\<And>x s a s'. I x s \<Longrightarrow> body x s = Some (Inr (Inr a), s') \<Longrightarrow> Q (Inr a) s'"
    and raise: "\<And>x s e s'. I x s \<Longrightarrow> body x s = Some (Inl e, s') \<Longrightarrow> Q (Inl e) s'"
  shows "Q r t"
proof -
  have run: "loop_from body (x, s) = Some (r, t)" using ret by (simp add: loopE_def)
  have "body = body \<longrightarrow> I (fst (x, s)) (snd (x, s)) \<longrightarrow> Q (fst (r, t)) (snd (r, t))"
  proof (rule loop_from.raw_induct
      [where P = "\<lambda>b c y. b = body \<longrightarrow> I (fst c) (snd c) \<longrightarrow> Q (fst y) (snd y)", OF _ run])
    fix f b c y
    assume IH: "\<And>b c y. f b c = Some y \<Longrightarrow> b = body \<longrightarrow> I (fst c) (snd c) \<longrightarrow> Q (fst y) (snd y)"
      and eq: "(case b (fst c) (snd c) of None \<Rightarrow> None | Some p \<Rightarrow> (case fst p of
           Inl e \<Rightarrow> Some (Inl e, snd p)
         | Inr q \<Rightarrow> (case q of Inl x' \<Rightarrow> f b (x', snd p) | Inr a \<Rightarrow> Some (Inr a, snd p)))) = Some y"
    show "b = body \<longrightarrow> I (fst c) (snd c) \<longrightarrow> Q (fst y) (snd y)"
    proof (intro impI)
      assume b: "b = body" and I: "I (fst c) (snd c)"
      from eq b obtain q u where bd: "body (fst c) (snd c) = Some (q, u)"
        by (auto split: option.splits)
      show "Q (fst y) (snd y)"
      proof (cases q)
        case (Inl e)
        with eq bd b raise [OF I, of e u] show ?thesis by auto
      next
        case q: (Inr w)
        show ?thesis
        proof (cases w)
          case (Inl x')
          with eq bd b q have "f b (x', u) = Some y" by simp
          with IH b again [OF I, of x' u] bd q Inl show ?thesis by fastforce
        next
          case (Inr a)
          with eq bd b q stop [OF I, of a u] show ?thesis by auto
        qed
      qed
    qed
  qed
  with init show ?thesis by simp
qed

text \<open>Termination: a measure that every further round decreases.\<close>

lemma loopE_terminates:
  fixes m :: "'x \<Rightarrow> 's \<Rightarrow> nat"
  assumes inv: "I x s"
    and some: "\<And>x s. I x s \<Longrightarrow> body x s \<noteq> None"
    and again: "\<And>x s x' s'. I x s \<Longrightarrow> body x s = Some (Inr (Inl x'), s') \<Longrightarrow> I x' s' \<and> m x' s' < m x s"
  shows "\<exists>r t. loopE body x s = Some (r, t)"
  using inv
proof (induction "m x s" arbitrary: x s rule: less_induct)
  case less
  from some [OF less.prems] obtain r s' where b: "body x s = Some (r, s')" by fastforce
  show ?case
  proof (cases r)
    case (Inl e)
    with b show ?thesis by (auto dest: loopE_raise)
  next
    case (Inr q)
    show ?thesis
    proof (cases q)
      case (Inl x')
      with b Inr have step: "body x s = Some (Inr (Inl x'), s')" by simp
      from again [OF less.prems step] less.hyps show ?thesis
        by (simp add: loopE_again [where body = body, OF step])
    next
      case (Inr a)
      with b \<open>r = Inr q\<close> show ?thesis by (auto dest: loopE_stop)
    qed
  qed
qed

text \<open>Two loops whose rounds agree in the states an invariant allows are the same from there.\<close>

lemma loopE_cong_Some:
  assumes run: "loopE b1 x s = Some (r, t)" and init: "I x s"
    and eq: "\<And>x s. I x s \<Longrightarrow> b1 x s = b2 x s"
    and again: "\<And>x s x' s'. I x s \<Longrightarrow> b1 x s = Some (Inr (Inl x'), s') \<Longrightarrow> I x' s'"
  shows "loopE b2 x s = Some (r, t)"
  using run
proof (rule loopE_rule [where I = "\<lambda>y u. I y u \<and> loopE b2 x s = loopE b2 y u" and Q = "\<lambda>r t. loopE b2 x s = Some (r, t)"],
    goal_cases)
  case 1
  show ?case using init by simp
next
  case (2 y u y' u')
  then have "b2 y u = Some (Inr (Inl y'), u')" using eq by simp
  from loopE_again [where body = b2, OF this] 2 again [of y u y' u'] show ?case by auto
next
  case (3 y u a u')
  then have "b2 y u = Some (Inr (Inr a), u')" using eq by simp
  from loopE_stop [where body = b2, OF this] 3 show ?case by simp
next
  case (4 y u e u')
  then have "b2 y u = Some (Inl e, u')" using eq by simp
  from loopE_raise [where body = b2, OF this] 4 show ?case by simp
qed

lemma loopE_cong:
  assumes init: "I x s" and eq: "\<And>x s. I x s \<Longrightarrow> b1 x s = b2 x s"
    and again: "\<And>x s x' s'. I x s \<Longrightarrow> b1 x s = Some (Inr (Inl x'), s') \<Longrightarrow> I x' s'"
  shows "loopE b1 x s = loopE b2 x s"
proof -
  have 12: "loopE b2 x s = Some (r, t)" if "loopE b1 x s = Some (r, t)" for r t
    using that init eq again by (rule loopE_cong_Some)
  have 21: "loopE b1 x s = Some (r, t)" if "loopE b2 x s = Some (r, t)" for r t
    using that init
  proof (rule loopE_cong_Some)
    show "\<And>x s. I x s \<Longrightarrow> b2 x s = b1 x s" by (simp add: eq)
    show "\<And>x s x' s'. I x s \<Longrightarrow> b2 x s = Some (Inr (Inl x'), s') \<Longrightarrow> I x' s'"
      using eq again by metis
  qed
  show ?thesis
  proof (cases "loopE b2 x s")
    case None
    with 12 show ?thesis by (cases "loopE b1 x s") auto
  qed (use 21 in auto)
qed

section \<open>Frames\<close>

definition keeps :: "('s \<Rightarrow> 'b) \<Rightarrow> ('s, 'e, 'a) act \<Rightarrow> bool" where
  "keeps f m \<longleftrightarrow> (\<forall>s r t. m s = Some (r, t) \<longrightarrow> f t = f s)"

lemma keepsD: "keeps f m \<Longrightarrow> m s = Some (r, t) \<Longrightarrow> f t = f s"
  by (simp add: keeps_def)

lemma keeps_ret [keeps_intros]: "keeps f (ret x)"
  and keeps_throw [keeps_intros]: "keeps f (throw e)"
  and keeps_readS [keeps_intros]: "keeps f (readS g)"
  and keeps_liftE [keeps_intros]: "keeps f (liftE r)"
  by (simp_all add: keeps_def run_simps)

lemma keeps_modS: "(\<And>s. f (g s) = f s) \<Longrightarrow> keeps f (modS g)"
  by (simp add: keeps_def run_simps)

lemma keeps_bindE [keeps_intros]: "keeps f m \<Longrightarrow> (\<And>x. keeps f (g x)) \<Longrightarrow> keeps f (bindE m g)"
  unfolding keeps_def by (metis bindE_cases)

lemma keeps_whenE [keeps_intros]: "keeps f m \<Longrightarrow> keeps f (whenE b m)"
  by (simp add: whenE_def keeps_ret)

lemma keeps_if [keeps_intros]: "keeps f m \<Longrightarrow> keeps f n \<Longrightarrow> keeps f (if b then m else n)"
  by simp

lemma keeps_case_option [keeps_intros]:
  "keeps f m \<Longrightarrow> (\<And>x. keeps f (g x)) \<Longrightarrow> keeps f (case y of None \<Rightarrow> m | Some x \<Rightarrow> g x)"
  by (cases y) simp_all

lemma keeps_case_sum [keeps_intros]:
  "(\<And>x. keeps f (g x)) \<Longrightarrow> (\<And>x. keeps f (h x)) \<Longrightarrow> keeps f (case y of Inl x \<Rightarrow> g x | Inr x \<Rightarrow> h x)"
  by (cases y) simp_all

lemma keeps_loopE [keeps_intros]:
  assumes "\<And>x. keeps f (body x)"
  shows "keeps f (loopE body x)"
  unfolding keeps_def
proof (intro allI impI)
  fix s r t
  assume "loopE body x s = Some (r, t)"
  then show "f t = f s"
    by (rule loopE_rule [where I = "\<lambda>_ u. f u = f s"]) (auto dest: keepsD [OF assms])
qed

section \<open>Actions that always return\<close>

definition total :: "('s, 'e, 'a) act \<Rightarrow> bool" where
  "total m \<longleftrightarrow> (\<forall>s. m s \<noteq> None)"

named_theorems total_intros "actions that return from every state"

lemma totalD: "total m \<Longrightarrow> \<exists>r t. m s = Some (r, t)"
  by (auto simp: total_def)

lemma total_basic [total_intros]:
  "total (ret x)" "total (throw e)" "total (readS f)" "total (modS g)" "total (liftE r)"
  by (simp_all add: total_def run_simps)

lemma total_bindE [total_intros]: "total m \<Longrightarrow> (\<And>x. total (g x)) \<Longrightarrow> total (bindE m g)"
  by (auto simp: total_def run_simps split: option.splits sum.splits)

lemma total_whenE [total_intros]: "total m \<Longrightarrow> total (whenE b m)"
  by (simp add: total_def run_simps)

lemma total_if [total_intros]: "total m \<Longrightarrow> total n \<Longrightarrow> total (if b then m else n)"
  by simp

lemma total_case_option [total_intros]:
  "total m \<Longrightarrow> (\<And>x. total (g x)) \<Longrightarrow> total (case y of None \<Rightarrow> m | Some x \<Rightarrow> g x)"
  by (cases y) simp_all

lemma total_case_sum [total_intros]:
  "(\<And>x. total (g x)) \<Longrightarrow> (\<And>x. total (h x)) \<Longrightarrow> total (case y of Inl x \<Rightarrow> g x | Inr x \<Rightarrow> h x)"
  by (cases y) simp_all

section \<open>Machine integers\<close>

lemma unat_word_of_nat: "n < 2 ^ LENGTH('a::len) \<Longrightarrow> unat (word_of_nat n :: 'a word) = n"
  by (simp add: unsigned_of_nat take_bit_nat_eq_self)

lemma unat_ucast_32_64: "unat (ucast w :: 64 word) = unat (w :: 32 word)"
proof -
  have "unat w < 2 ^ 32" using unsigned_less [where 'a = nat, of w] by simp
  then have "unat w < 2 ^ 64" by simp
  then show ?thesis by (simp add: unsigned_ucast_eq take_bit_nat_eq_self)
qed

lemma sint_low_word:
  assumes "0 \<le> n" and "n < 2 ^ 31"
  shows "sint (ucast (word_of_int n :: 64 word) :: 32 word) = n"
proof -
  have "ucast (word_of_int n :: 64 word) = (word_of_int n :: 32 word)"
    using assms by (simp add: unsigned_of_int take_bit_int_eq_self)
  then show ?thesis
    using assms by (simp add: signed_of_int signed_take_bit_int_eq_self)
qed

lemma uint_of_int_small: "0 \<le> n \<Longrightarrow> n < 2 ^ LENGTH('a::len) \<Longrightarrow> uint (word_of_int n :: 'a word) = n"
  by (simp add: unsigned_of_int take_bit_int_eq_self)

section \<open>Integers in memory\<close>

text \<open>The bytes of an integer as a little-endian machine stores them.\<close>

primrec le_bytes :: "nat \<Rightarrow> 'a::len word \<Rightarrow> 8 word list" where
  "le_bytes 0 w = []"
| "le_bytes (Suc n) w = ucast w # le_bytes n (drop_bit 8 w)"

primrec le_word :: "8 word list \<Rightarrow> 'a::len word" where
  "le_word [] = 0"
| "le_word (b # bs) = ucast b OR push_bit 8 (le_word bs)"

lemma length_le_bytes [simp]: "length (le_bytes n w) = n"
  by (induction n arbitrary: w) simp_all

lemma le_word_le_bytes: "le_word (le_bytes n w) = take_bit (8 * n) w"
proof (induction n arbitrary: w)
  case (Suc n)
  show ?case
    by (rule bit_word_eqI) (auto simp: Suc bit_or_iff bit_push_bit_iff bit_take_bit_iff bit_drop_bit_eq
        bit_ucast_iff not_less)
qed simp

lemma le_word_le_bytes_32 [simp]: "le_word (le_bytes 4 (w :: 32 word)) = w"
  and le_word_le_bytes_64 [simp]: "le_word (le_bytes 8 (v :: 64 word)) = v"
  by (simp_all add: le_word_le_bytes take_bit_word_eq_self)

end
