(* ===== verification/SP_Runtime.thy ===== *)
theory SP_Runtime
  imports Complex_Main SP_Prelude
begin

text \<open>
  What the extension uses of C and of the Ruby C API, and the state its functions run in.
  Ruby values, exceptions and the \<open>NUM2INT\<close> family of conversions are data and total functions.
  The kernel, the garbage collector, Ruby code reached through \<open>to_io\<close> and the other threads of
  the process are not part of the extension: they are parameters, functions over an environment
  that holds Ruby's IO objects, the thread's \<open>errno\<close> and an arbitrary kernel state.
  The thread's heap of scratch buffers (the \<open>rb_sp_tlsbuf\<close> blocks of init.c) is explicit, so that
  leaks, dangling pointers and buffer overruns are visible outcomes and not left unspecified.
  Objects that define \<open>to_int\<close> are not modelled: a conversion of such an object is a TypeError here.
\<close>

section \<open>Errors\<close>

datatype errno =
  EINTR | EAGAIN | EINVAL | EMFILE | ENFILE | ENOMEM | ENOBUFS | EBADF | ENOENT | EEXIST | E_other nat

datatype exn =
  SystemCallError errno string
| IOError string
| EOFError
| TypeError string
| RangeError
| ArgumentError string
| RuntimeError string
| NameError string
| NoMemoryError
| LocalJumpError
| UserError nat \<comment> \<open>raised by a block, a signal handler or another thread\<close>

text \<open>
  A call ends with a Ruby exception, with a failed \<open>assert\<close> (the process aborts), or with
  undefined behaviour of C: a use of freed or never allocated memory, or a write past a buffer.
\<close>

datatype fail = Raise exn | Abort string | UB string

section \<open>Values\<close>

text \<open>A C \<open>double\<close>: a binary64 number that is finite (its exact value), infinite or not a number.\<close>

datatype dbl = Fin rat | PInf | NInf | NaN

datatype klass =
  mSleepyPenguin | cEpoll | cEpoll_IO | cKqueue | cKqueue_IO | mEv | mEvFilt | mNote | mVQ
| cTimerFD | cEventFD | cInotify | cEvent | cOther nat

datatype val =
  VNil | VTrue | VFalse | VInt int | VFloat dbl | VSym string | VStr string
| VArr "val list" | VStruct "val list" | VFile nat | VClass klass | VObj nat

datatype rtype =
  T_NIL | T_TRUE | T_FALSE | T_FIXNUM | T_BIGNUM | T_FLOAT | T_SYMBOL | T_STRING
| T_ARRAY | T_STRUCT | T_FILE | T_CLASS | T_OBJECT

definition FIXNUM_MAX :: int where "FIXNUM_MAX = 2 ^ 62 - 1"
definition FIXNUM_MIN :: int where "FIXNUM_MIN = - (2 ^ 62)"

fun TYPE_OF :: "val \<Rightarrow> rtype" where
  "TYPE_OF VNil = T_NIL"
| "TYPE_OF VTrue = T_TRUE"
| "TYPE_OF VFalse = T_FALSE"
| "TYPE_OF (VInt n) = (if FIXNUM_MIN \<le> n \<and> n \<le> FIXNUM_MAX then T_FIXNUM else T_BIGNUM)"
| "TYPE_OF (VFloat d) = T_FLOAT"
| "TYPE_OF (VSym x) = T_SYMBOL"
| "TYPE_OF (VStr x) = T_STRING"
| "TYPE_OF (VArr xs) = T_ARRAY"
| "TYPE_OF (VStruct xs) = T_STRUCT"
| "TYPE_OF (VFile i) = T_FILE"
| "TYPE_OF (VClass k) = T_CLASS"
| "TYPE_OF (VObj n) = T_OBJECT"

definition RTEST :: "val \<Rightarrow> bool" where
  "RTEST v \<longleftrightarrow> v \<noteq> VNil \<and> v \<noteq> VFalse"

section \<open>Conversions between Ruby integers and C integers\<close>

definition trunc_rat :: "rat \<Rightarrow> int" where
  "trunc_rat r = (if 0 \<le> r then \<lfloor>r\<rfloor> else \<lceil>r\<rceil>)"

fun num_value :: "val \<Rightarrow> exn + int" where
  "num_value (VInt n) = Inr n"
| "num_value (VFloat (Fin r)) = Inr (trunc_rat r)"
| "num_value (VFloat d) = Inl RangeError"
| "num_value v = Inl (TypeError ''no implicit conversion to integer'')"

definition num_between :: "int \<Rightarrow> int \<Rightarrow> val \<Rightarrow> fail + int" where
  "num_between lo hi v = (case num_value v of
       Inl x \<Rightarrow> Inl (Raise x)
     | Inr n \<Rightarrow> if lo \<le> n \<and> n \<le> hi then Inr n else Inl (Raise RangeError))"

text \<open>
  The unsigned conversions accept negative numbers down to the signed minimum and wrap them,
  as Ruby's \<open>rb_num2uint\<close>, \<open>rb_num2ulong\<close> and \<open>rb_num2ushort\<close> do.
\<close>

definition NUM2INT :: "val \<Rightarrow> fail + int" where
  "NUM2INT = num_between (- (2 ^ 31)) (2 ^ 31 - 1)"

definition NUM2UINT :: "val \<Rightarrow> fail + 32 word" where
  "NUM2UINT v = map_sum id of_int (num_between (- (2 ^ 31)) (2 ^ 32 - 1) v)"

definition NUM2LONG :: "val \<Rightarrow> fail + int" where
  "NUM2LONG = num_between (- (2 ^ 63)) (2 ^ 63 - 1)"

definition NUM2ULONG :: "val \<Rightarrow> fail + 64 word" where
  "NUM2ULONG v = map_sum id of_int (num_between (- (2 ^ 63)) (2 ^ 64 - 1) v)"

definition NUM2SHORT :: "val \<Rightarrow> fail + int" where
  "NUM2SHORT = num_between (- (2 ^ 15)) (2 ^ 15 - 1)"

definition NUM2USHORT :: "val \<Rightarrow> fail + 16 word" where
  "NUM2USHORT v = map_sum id of_int (num_between (- (2 ^ 15)) (2 ^ 16 - 1) v)"

abbreviation UINT2NUM :: "32 word \<Rightarrow> val" where "UINT2NUM w \<equiv> VInt (uint w)"
abbreviation ULL2NUM :: "64 word \<Rightarrow> val" where "ULL2NUM w \<equiv> VInt (uint w)"
abbreviation INT2NUM :: "int \<Rightarrow> val" where "INT2NUM n \<equiv> VInt n"

lemma NUM2INT_bounds: "NUM2INT v = Inr n \<Longrightarrow> - (2 ^ 31) \<le> n \<and> n < 2 ^ 31"
  by (auto simp: NUM2INT_def num_between_def split: sum.splits if_splits)

lemma NUM2UINT_roundtrip: "NUM2UINT (UINT2NUM w) = Inr w"
proof -
  have "- (2 ^ 31) \<le> (0 :: int)" by simp
  then have "- (2 ^ 31) \<le> uint w" by (rule order_trans) (rule uint_ge_0)
  moreover have "uint w \<le> 2 ^ 32 - 1" using uint_lt2p [of w] by simp
  ultimately show ?thesis by (simp add: NUM2UINT_def num_between_def)
qed

lemma NUM2INT_VInt: "- (2 ^ 31) \<le> n \<Longrightarrow> n < 2 ^ 31 \<Longrightarrow> NUM2INT (VInt n) = Inr n"
  by (simp add: NUM2INT_def num_between_def)

section \<open>C structs that live in a scratch buffer\<close>

record timespec =
  tv_sec :: int
  tv_nsec :: int

text \<open>A reading of the clock: a normalised time that is not absurdly far in the future.\<close>

definition ts_ok :: "timespec \<Rightarrow> bool" where
  "ts_ok a \<longleftrightarrow> 0 \<le> tv_sec a \<and> tv_sec a < 2 ^ 50 \<and> 0 \<le> tv_nsec a \<and> tv_nsec a < 1000000000"

definition ts_nanos :: "timespec \<Rightarrow> int" where
  "ts_nanos a = tv_sec a * 1000000000 + tv_nsec a"

record epoll_event =
  ee_events :: "32 word"
  ee_data :: val \<comment> \<open>\<open>data.ptr\<close>, always a Ruby VALUE here\<close>

record kevent =
  kv_ident :: "64 word"
  kv_filter :: int
  kv_flags :: "16 word"
  kv_fflags :: "32 word"
  kv_data :: int
  kv_udata :: val

record ep_per_thread =
  ep_io :: val
  ep_fd :: int
  ep_timeout :: int
  ep_maxevents :: int
  ep_capa :: int
  ep_events :: "epoll_event list"

record kq_per_thread =
  kq_io :: val
  kq_changelist :: val
  kq_fd :: int
  kq_nchanges :: int
  kq_nevents :: int
  kq_capa :: int
  kq_ts :: "timespec option"
  kq_events :: "kevent list"

text \<open>What the flexible array \<open>ptr\<close> of a buffer currently holds.\<close>

datatype payload =
  P_uninit | P_ept ep_per_thread | P_kpt kq_per_thread | P_bytes "8 word list"

datatype rb_sp_tls_buf_type = RB_SP_TLS_INUSE | RB_SP_TLS_READY | RB_SP_TLS_MALLOCED

record rb_sp_tlsbuf =
  capa :: "32 word"
  buf_type :: rb_sp_tls_buf_type
  ptr :: payload

section \<open>State\<close>

datatype io_state = IO_uninit | IO_closed | IO_open int

text \<open>What other threads, the kernel and Ruby code can change.\<close>

record 'k env =
  ios :: "nat \<Rightarrow> io_state"
  inotify_tmp :: "nat \<Rightarrow> val list option" \<comment> \<open>the \<open>@inotify_tmp\<close> array of an Inotify object, if set\<close>
  errno :: errno
  kern :: 'k

record 'k st =
  env :: "'k env"
  heap :: "nat \<Rightarrow> rb_sp_tlsbuf option"
  brk :: nat \<comment> \<open>addresses from here on were never allocated\<close>
  rb_sp_key :: "nat option" \<comment> \<open>this thread's value of the pthread key, \<open>None\<close> for NULL\<close>

type_synonym ('k, 'a) M = "('k st, fail, 'a) act"

type_synonym 'k blk = "val list \<Rightarrow> ('k, val) M"

text \<open>The Ruby VM and the C library as the extension sees them.\<close>

record 'k vm =
  vm_to_io :: "val \<Rightarrow> 'k env \<Rightarrow> (exn + nat) \<times> 'k env"
  vm_gc :: "'k env \<Rightarrow> 'k env"
  vm_check_ints :: "'k env \<Rightarrow> exn option \<times> 'k env"
  vm_io_wait_readable :: "int \<Rightarrow> 'k env \<Rightarrow> (exn + bool) \<times> 'k env"
  vm_io_wait_writable :: "int \<Rightarrow> 'k env \<Rightarrow> (exn + bool) \<times> 'k env"
  vm_io_new :: "int \<Rightarrow> 'k env \<Rightarrow> (exn + nat) \<times> 'k env"
  vm_class_of :: "val \<Rightarrow> klass"
  vm_const_get :: "klass \<Rightarrow> string \<Rightarrow> val option"
  vm_clock_gettime :: "'k env \<Rightarrow> timespec \<times> 'k env"
  vm_posix_memalign :: "64 word \<Rightarrow> 64 word \<Rightarrow> 'k env \<Rightarrow> bool \<times> 'k env" \<comment> \<open>true: it failed\<close>
  vm_setspecific :: "'k env \<Rightarrow> errno option \<times> 'k env"
  vm_fcntl_getfl :: "int \<Rightarrow> 'k env \<Rightarrow> (errno + 32 word) \<times> 'k env"
  vm_fcntl_setfl :: "int \<Rightarrow> 32 word \<Rightarrow> 'k env \<Rightarrow> (errno + unit) \<times> 'k env"
  vm_fcntl_getfd :: "int \<Rightarrow> 'k env \<Rightarrow> (errno + 32 word) \<times> 'k env"
  vm_fcntl_setfd :: "int \<Rightarrow> 32 word \<Rightarrow> 'k env \<Rightarrow> (errno + unit) \<times> 'k env"
  vm_close :: "int \<Rightarrow> 'k env \<Rightarrow> 'k env"

section \<open>Basic actions\<close>

definition envE :: "('k env \<Rightarrow> 'a \<times> 'k env) \<Rightarrow> ('k, 'a) M" where
  "envE f = (\<lambda>s. Some (Inr (fst (f (env s))), s\<lparr>env := snd (f (env s))\<rparr>))"

definition envX :: "('k env \<Rightarrow> (exn + 'a) \<times> 'k env) \<Rightarrow> ('k, 'a) M" where
  "envX f = bindE (envE f) (\<lambda>r. liftE (map_sum Raise id r))"

definition set_errno :: "errno \<Rightarrow> ('k, unit) M" where
  "set_errno e = modS (\<lambda>s. s\<lparr>env := (env s)\<lparr>errno := e\<rparr>\<rparr>)"

definition get_errno :: "('k, errno) M" where
  "get_errno = readS (\<lambda>s. errno (env s))"

text \<open>A system call: \<^term>\<open>None\<close> is the return value -1 with \<open>errno\<close> set.\<close>

definition syscall :: "('k env \<Rightarrow> (errno + 'a) \<times> 'k env) \<Rightarrow> ('k, 'a option) M" where
  "syscall f = bindE (envE f) (\<lambda>r. case r of
       Inl e \<Rightarrow> bindE (set_errno e) (\<lambda>_. ret None)
     | Inr x \<Rightarrow> ret (Some x))"

definition rb_raise :: "exn \<Rightarrow> ('k, 'a) M" where
  "rb_raise x = throw (Raise x)"

definition rb_sys_fail :: "string \<Rightarrow> ('k, 'a) M" where
  "rb_sys_fail msg = bindE get_errno (\<lambda>e. rb_raise (SystemCallError e msg))"

definition c_assert :: "bool \<Rightarrow> string \<Rightarrow> ('k, unit) M" where
  "c_assert b msg = (if b then ret () else throw (Abort msg))"

definition rb_gc :: "'k vm \<Rightarrow> ('k, unit) M" where
  "rb_gc V = envE (\<lambda>e. ((), vm_gc V e))"

definition clock_gettime :: "'k vm \<Rightarrow> ('k, timespec) M" where
  "clock_gettime V = envE (vm_clock_gettime V)"

text \<open>
  \<open>rb_ensure\<close> runs the handler whether the body returns or raises, and then passes the body's
  outcome on unless the handler raises itself.  A crash of the body runs no handler.
\<close>

definition rb_ensure :: "('k, 'a) M \<Rightarrow> ('k, 'b) M \<Rightarrow> ('k, 'a) M" where
  "rb_ensure b d = (\<lambda>s. case b s of
       None \<Rightarrow> None
     | Some (Inl (Raise x), s') \<Rightarrow> bindE d (\<lambda>_. rb_raise x) s'
     | Some (Inl f, s') \<Rightarrow> Some (Inl f, s')
     | Some (Inr a, s') \<Rightarrow> bindE d (\<lambda>_. ret a) s')"

text \<open>
  A call made with the VM's lock released.  When the lock is taken again pending interrupts are
  served, which may raise; \<open>errno\<close> is the one the call left.
\<close>

definition without_gvl :: "'k vm \<Rightarrow> ('k, 'a) M \<Rightarrow> ('k, 'a) M" where
  "without_gvl V m = bindE m (\<lambda>r. bindE get_errno (\<lambda>e.
     bindE (envE (vm_check_ints V)) (\<lambda>x. bindE (set_errno e) (\<lambda>_.
       case x of None \<Rightarrow> ret r | Some y \<Rightarrow> rb_raise y))))"

definition rb_call_super_fd :: "'k vm \<Rightarrow> int \<Rightarrow> ('k, val) M" where
  "rb_call_super_fd V fd = bindE (envX (vm_io_new V fd)) (\<lambda>i. ret (VFile i))"

text \<open>\<open>rb_scan_args\<close> with \<open>req\<close> required and \<open>opt\<close> optional arguments; a missing one is nil.\<close>

definition rb_scan_args :: "nat \<Rightarrow> nat \<Rightarrow> val list \<Rightarrow> fail + val list" where
  "rb_scan_args req opt argv = (if length argv < req \<or> req + opt < length argv
     then Inl (Raise (ArgumentError ''wrong number of arguments''))
     else Inr (argv @ replicate (req + opt - length argv) VNil))"

definition rb_need_block :: "'k blk option \<Rightarrow> ('k, 'k blk) M" where
  "rb_need_block B = (case B of None \<Rightarrow> rb_raise LocalJumpError | Some f \<Rightarrow> ret f)"

text \<open>Calling the block once for every element, in order.\<close>

primrec yields :: "'k blk \<Rightarrow> val list list \<Rightarrow> ('k, unit) M" where
  "yields B [] = ret ()"
| "yields B (x # xs) = bindE (B x) (\<lambda>_. yields B xs)"

lemma bindE_rb_raise [simp]: "bindE (rb_raise x) g = rb_raise x"
  by (rule ext) (simp add: rb_raise_def run_simps)

lemma bindE_rb_sys_fail [simp]: "bindE (rb_sys_fail msg) g = rb_sys_fail msg"
  by (simp add: rb_sys_fail_def bindE_assoc)

lemmas basic_action_defs =
  envE_def envX_def set_errno_def get_errno_def syscall_def rb_raise_def rb_sys_fail_def
  c_assert_def rb_gc_def clock_gettime_def without_gvl_def rb_call_super_fd_def

text \<open>None of them touches the scratch buffers.\<close>

definition bufs :: "'k st \<Rightarrow> (nat \<Rightarrow> rb_sp_tlsbuf option) \<times> nat \<times> nat option" where
  "bufs s = (heap s, brk s, rb_sp_key s)"

lemma bufs_env_update [simp]: "bufs (s\<lparr>env := e\<rparr>) = bufs s"
  by (simp add: bufs_def)

lemma keeps_envE [keeps_intros]: "keeps bufs (envE f)"
  by (simp add: keeps_def envE_def)

lemma keeps_set_errno [keeps_intros]: "keeps bufs (set_errno e)"
  by (simp add: keeps_def set_errno_def run_simps)

lemma keeps_get_errno [keeps_intros]: "keeps f get_errno"
  unfolding get_errno_def by (intro keeps_intros)

lemma keeps_rb_raise [keeps_intros]: "keeps f (rb_raise x)"
  unfolding rb_raise_def by (intro keeps_intros)

lemma keeps_envX [keeps_intros]: "keeps bufs (envX f)"
  unfolding envX_def by (intro keeps_intros)

lemma keeps_syscall [keeps_intros]: "keeps bufs (syscall f)"
  unfolding syscall_def by (intro keeps_intros)

lemma keeps_rb_sys_fail [keeps_intros]: "keeps f (rb_sys_fail msg)"
  unfolding rb_sys_fail_def by (intro keeps_intros)

lemma keeps_c_assert [keeps_intros]: "keeps f (c_assert b msg)"
  unfolding c_assert_def by (intro keeps_intros)

lemma keeps_rb_gc [keeps_intros]: "keeps bufs (rb_gc V)"
  unfolding rb_gc_def by (intro keeps_intros)

lemma keeps_clock_gettime [keeps_intros]: "keeps bufs (clock_gettime V)"
  unfolding clock_gettime_def by (intro keeps_intros)

lemma keeps_without_gvl [keeps_intros]: "keeps bufs m \<Longrightarrow> keeps bufs (without_gvl V m)"
  unfolding without_gvl_def by (intro keeps_intros)

lemma keeps_rb_call_super_fd [keeps_intros]: "keeps bufs (rb_call_super_fd V fd)"
  unfolding rb_call_super_fd_def by (intro keeps_intros)

lemma keeps_rb_ensure [keeps_intros]:
  assumes "keeps f b" and "keeps f d"
  shows "keeps f (rb_ensure b d)"
  unfolding keeps_def
proof (intro allI impI)
  fix s r t
  assume "rb_ensure b d s = Some (r, t)"
  then show "f t = f s"
    by (auto simp: rb_ensure_def rb_raise_def run_simps
        split: option.splits prod.splits sum.splits fail.splits)
      (metis assms keepsD)+
qed

text \<open>Neither do they crash: the only failures they produce are Ruby exceptions.\<close>

definition crash :: "fail \<Rightarrow> bool" where
  "crash f \<longleftrightarrow> (case f of Raise _ \<Rightarrow> False | _ \<Rightarrow> True)"

lemma crash_simps [simp]: "\<not> crash (Raise x)" "crash (Abort m)" "crash (UB m)"
  by (simp_all add: crash_def)

definition safe :: "('k, 'a) M \<Rightarrow> bool" where
  "safe m \<longleftrightarrow> (\<forall>s f t. m s = Some (Inl f, t) \<longrightarrow> \<not> crash f)"

named_theorems safe_intros "actions whose only failures are Ruby exceptions"

lemma safeD: "safe m \<Longrightarrow> m s = Some (Inl f, t) \<Longrightarrow> \<not> crash f"
  by (auto simp: safe_def)

lemma safe_ret [safe_intros]: "safe (ret x)"
  and safe_readS [safe_intros]: "safe (readS g)"
  and safe_modS [safe_intros]: "safe (modS h)"
  and safe_rb_raise [safe_intros]: "safe (rb_raise e)"
  and safe_envE [safe_intros]: "safe (envE k)"
  by (simp_all add: safe_def run_simps rb_raise_def envE_def)

lemma safe_bindE [safe_intros]: "safe m \<Longrightarrow> (\<And>x. safe (g x)) \<Longrightarrow> safe (bindE m g)"
  unfolding safe_def by (metis bindE_cases sum.inject(1))

lemma safe_whenE [safe_intros]: "safe m \<Longrightarrow> safe (whenE b m)"
  by (simp add: whenE_def safe_ret)

lemma safe_if [safe_intros]: "safe m \<Longrightarrow> safe n \<Longrightarrow> safe (if b then m else n)"
  by simp

lemma safe_case_option [safe_intros]:
  "safe m \<Longrightarrow> (\<And>x. safe (g x)) \<Longrightarrow> safe (case y of None \<Rightarrow> m | Some x \<Rightarrow> g x)"
  by (cases y) simp_all

lemma safe_case_sum [safe_intros]:
  "(\<And>x. safe (g x)) \<Longrightarrow> (\<And>x. safe (h x)) \<Longrightarrow> safe (case y of Inl x \<Rightarrow> g x | Inr x \<Rightarrow> h x)"
  by (cases y) simp_all

lemma safe_liftE_map_Raise [safe_intros]: "safe (liftE (map_sum Raise id r))"
  by (cases r) (simp_all add: safe_def run_simps)

lemma safe_liftE_num_between [safe_intros]: "safe (liftE (num_between lo hi v))"
  by (auto simp: safe_def run_simps num_between_def split: sum.splits if_splits)

lemma safe_NUM2INT [safe_intros]: "safe (liftE (NUM2INT v))"
  and safe_NUM2LONG [safe_intros]: "safe (liftE (NUM2LONG v))"
  and safe_NUM2SHORT [safe_intros]: "safe (liftE (NUM2SHORT v))"
  by (simp_all add: NUM2INT_def NUM2LONG_def NUM2SHORT_def safe_liftE_num_between)

lemma safe_NUM2UINT [safe_intros]: "safe (liftE (NUM2UINT v))"
  and safe_NUM2ULONG [safe_intros]: "safe (liftE (NUM2ULONG v))"
  and safe_NUM2USHORT [safe_intros]: "safe (liftE (NUM2USHORT v))"
  by (auto simp: safe_def run_simps NUM2UINT_def NUM2ULONG_def NUM2USHORT_def num_between_def
      split: sum.splits if_splits)

lemma safe_loopE [safe_intros]:
  fixes body :: "'x \<Rightarrow> ('k, 'x + 'b) M"
  assumes "\<And>x. safe (body x)"
  shows "safe (loopE body x)"
  unfolding safe_def
proof (intro allI impI)
  fix s f t
  assume "loopE body x s = Some (Inl f, t)"
  then have "case (Inl f :: fail + 'b) of Inl g \<Rightarrow> \<not> crash g | Inr _ \<Rightarrow> True"
    by (rule loopE_rule [where I = "\<lambda>_ _. True"
          and Q = "\<lambda>r _. case r of Inl g \<Rightarrow> \<not> crash g | Inr _ \<Rightarrow> True"])
      (auto dest: safeD [OF assms])
  then show "\<not> crash f" by simp
qed

lemma safe_basic [safe_intros]:
  shows "safe (envX f)" and "safe (set_errno e)" and "safe get_errno" and "safe (syscall h)"
    and "safe (rb_sys_fail msg)" and "safe (rb_gc V)" and "safe (clock_gettime V)"
    and "safe (rb_call_super_fd V fd)"
  unfolding envX_def set_errno_def get_errno_def syscall_def rb_sys_fail_def rb_gc_def
    clock_gettime_def rb_call_super_fd_def
  by (intro safe_intros)+

lemma safe_rb_scan_args [safe_intros]: "safe (liftE (rb_scan_args req opt argv))"
  by (simp add: safe_def run_simps rb_scan_args_def)

lemma safe_rb_need_block [safe_intros]: "safe (rb_need_block B)"
  unfolding rb_need_block_def by (intro safe_intros)

lemma keeps_rb_need_block [keeps_intros]: "keeps f (rb_need_block B)"
  unfolding rb_need_block_def by (intro keeps_intros)

lemma safe_without_gvl [safe_intros]: "safe m \<Longrightarrow> safe (without_gvl V m)"
  unfolding without_gvl_def by (intro safe_intros)

lemma total_env [total_intros]:
  "total (envE f)" "total (set_errno e)" "total get_errno" "total (rb_raise x)"
  by (simp_all add: total_def envE_def set_errno_def get_errno_def rb_raise_def run_simps)

lemma total_api [total_intros]:
  "total (envX h)" "total (syscall g)" "total (rb_sys_fail m)" "total (rb_gc V)" "total (clock_gettime V)"
  "total (c_assert b m)" "total (rb_call_super_fd V fd)" "total (rb_need_block B)"
  unfolding envX_def syscall_def rb_sys_fail_def rb_gc_def clock_gettime_def c_assert_def
    rb_call_super_fd_def rb_need_block_def
  by (intro total_intros)+

lemma total_without_gvl [total_intros]: "total m \<Longrightarrow> total (without_gvl V m)"
  unfolding without_gvl_def by (intro total_intros)

lemma total_safe: "total m \<Longrightarrow> safe m \<Longrightarrow> \<exists>r t. m s = Some (r, t) \<and> (\<forall>f. r = Inl f \<longrightarrow> \<not> crash f)"
  using totalD [of m s] unfolding safe_def by blast

section \<open>Interruptions that run out\<close>

text \<open>
  A blocking call restarts as long as it is interrupted, so it returns only if interruptions stop.
  \<open>calm \<mu> m\<close> says that \<open>m\<close> does not bring new interruptions, \<open>\<mu>\<close> being a bound on those to come.
\<close>

definition calm :: "('k env \<Rightarrow> nat) \<Rightarrow> ('k, 'a) M \<Rightarrow> bool" where
  "calm \<mu> m \<longleftrightarrow> (\<forall>s r t. m s = Some (r, t) \<longrightarrow> \<mu> (env t) \<le> \<mu> (env s))"

definition vm_calm :: "('k env \<Rightarrow> nat) \<Rightarrow> 'k vm \<Rightarrow> bool" where
  "vm_calm \<mu> V \<longleftrightarrow> (\<forall>e. (\<forall>x. \<mu> (e\<lparr>errno := x\<rparr>) = \<mu> e) \<and> \<mu> (snd (vm_check_ints V e)) \<le> \<mu> e \<and>
     \<mu> (snd (vm_clock_gettime V e)) \<le> \<mu> e \<and> (\<forall>v. \<mu> (snd (vm_to_io V v e)) \<le> \<mu> e) \<and>
     (\<forall>fd. \<mu> (snd (vm_io_wait_readable V fd e)) \<le> \<mu> e) \<and>
     (\<forall>fd. \<mu> (snd (vm_io_wait_writable V fd e)) \<le> \<mu> e))"

named_theorems calm_intros "actions that bring no interruptions"

lemma calmD: "calm \<mu> m \<Longrightarrow> m s = Some (r, t) \<Longrightarrow> \<mu> (env t) \<le> \<mu> (env s)"
  by (simp add: calm_def)

lemma calm_basic [calm_intros]:
  "calm \<mu> (ret x)" "calm \<mu> (throw e)" "calm \<mu> (readS f)" "calm \<mu> (liftE r)" "calm \<mu> get_errno"
  "calm \<mu> (rb_raise y)" "calm \<mu> (rb_sys_fail msg)"
  by (simp_all add: calm_def run_simps get_errno_def rb_raise_def rb_sys_fail_def)

lemma calm_bindE [calm_intros]: "calm \<mu> m \<Longrightarrow> (\<And>x. calm \<mu> (g x)) \<Longrightarrow> calm \<mu> (bindE m g)"
  by (auto simp: calm_def elim!: bindE_cases) (meson order_trans)

lemma calm_if [calm_intros]: "calm \<mu> m \<Longrightarrow> calm \<mu> n \<Longrightarrow> calm \<mu> (if b then m else n)"
  by simp

lemma calm_case_option [calm_intros]:
  "calm \<mu> m \<Longrightarrow> (\<And>x. calm \<mu> (g x)) \<Longrightarrow> calm \<mu> (case y of None \<Rightarrow> m | Some x \<Rightarrow> g x)"
  by (cases y) simp_all

lemma calm_envE: "(\<And>e. \<mu> (snd (f e)) \<le> \<mu> e) \<Longrightarrow> calm \<mu> (envE f)"
  by (simp add: calm_def envE_def)

lemma calm_envX: "(\<And>e. \<mu> (snd (f e)) \<le> \<mu> e) \<Longrightarrow> calm \<mu> (envX f)"
  unfolding envX_def by (intro calm_intros calm_envE)

lemma calm_set_errno: "vm_calm \<mu> V \<Longrightarrow> calm \<mu> (set_errno x)"
  by (simp add: calm_def set_errno_def run_simps vm_calm_def)

lemma calm_syscall: "vm_calm \<mu> V \<Longrightarrow> (\<And>e. \<mu> (snd (f e)) \<le> \<mu> e) \<Longrightarrow> calm \<mu> (syscall f)"
  unfolding syscall_def by (auto intro!: calm_intros calm_envE calm_set_errno split: sum.split)

lemma without_gvl_Inr:
  assumes "without_gvl V m s = Some (Inr x, t)"
  obtains u where "m s = Some (Inr x, u)"
    and "t = u\<lparr>env := (snd (vm_check_ints V (env u)))\<lparr>errno := errno (env u)\<rparr>\<rparr>"
  using assms
  by (auto simp: without_gvl_def run_simps get_errno_def set_errno_def envE_def rb_raise_def
      split: option.splits sum.splits)

lemma calm_without_gvl:
  assumes V: "vm_calm \<mu> V" and m: "calm \<mu> m"
  shows "calm \<mu> (without_gvl V m)"
proof -
  from V have "calm \<mu> (envE (vm_check_ints V))" by (intro calm_envE) (simp add: vm_calm_def)
  then show ?thesis unfolding without_gvl_def by (intro calm_intros m calm_set_errno [OF V])
qed

end
