(* ===== verification/SP_Sample.thy ===== *)
theory SP_Sample
  imports SP_Runtime
begin

text \<open>
  A concrete runtime for evaluating the model: IO object 0 is open on descriptor 5, memory never
  runs out, no interrupt is pending, and the kernel state is the number of times a blocking call
  is still going to be interrupted.  The components add their own system calls to it.
\<close>

definition sample_wait :: "int \<Rightarrow> nat env \<Rightarrow> (exn + bool) \<times> nat env" where
  "sample_wait fd e = (Inr (errno e = EAGAIN \<or> errno e = EINTR), e)"

definition sample_vm :: "nat vm" where
  "sample_vm = \<lparr>
     vm_to_io = (\<lambda>v e. (Inl (TypeError ''no implicit conversion into IO''), e)),
     vm_gc = (\<lambda>e. e),
     vm_check_ints = (\<lambda>e. (None, e)),
     vm_io_wait_readable = sample_wait,
     vm_io_wait_writable = sample_wait,
     vm_io_new = (\<lambda>fd e. (Inr 1, e\<lparr>ios := (ios e)(1 := IO_open fd)\<rparr>)),
     vm_class_of = (\<lambda>v. cOther 0),
     vm_const_get = (\<lambda>k n. if n = ''IN'' then Some (VInt 1) else if n = ''OUT'' then Some (VInt 4) else None),
     vm_clock_gettime = (\<lambda>e. (\<lparr>tv_sec = 100, tv_nsec = 0\<rparr>, e)),
     vm_posix_memalign = (\<lambda>a n e. (False, e)),
     vm_setspecific = (\<lambda>e. (None, e)),
     vm_fcntl_getfl = (\<lambda>fd e. (Inr 2, e)),
     vm_fcntl_setfl = (\<lambda>fd fl e. (Inr (), e)),
     vm_fcntl_getfd = (\<lambda>fd e. (Inr 0, e)),
     vm_fcntl_setfd = (\<lambda>fd fl e. (Inr (), e)),
     vm_close = (\<lambda>fd e. e)\<rparr>"

definition sample_env :: "nat \<Rightarrow> nat env" where
  "sample_env n = \<lparr>ios = (\<lambda>i. if i = 0 then IO_open 5 else IO_closed), inotify_tmp = (\<lambda>i. Some []),
     errno = E_other 0, kern = n\<rparr>"

definition sample_st :: "nat \<Rightarrow> nat st" where
  "sample_st n = \<lparr>env = sample_env n, heap = Map.empty, brk = 0, rb_sp_key = None\<rparr>"

text \<open>A blocking call that is interrupted while the kernel state is positive, then gives \<open>x\<close>.\<close>

definition after_interrupts :: "'a \<Rightarrow> nat env \<Rightarrow> (errno + 'a) \<times> nat env" where
  "after_interrupts x e = (if kern e = 0 then (Inr x, e) else (Inl EINTR, e\<lparr>kern := kern e - 1\<rparr>))"

lemmas sample_defs = sample_vm_def sample_env_def sample_st_def sample_wait_def after_interrupts_def

end
