(* ===== verification/SP_Tlsbuf.thy ===== *)
theory SP_Tlsbuf
  imports SP_Runtime SP_Sample
begin

text \<open>
  The scratch buffers of init.c.  Every thread keeps one buffer under a pthread key and hands it
  out to the call that needs it (\<open>rb_sp_gettlsbuf\<close>); a nested call on the same thread finds it in
  use and gets a buffer of its own, which \<open>rb_sp_puttlsbuf\<close> frees.  The lemmas show that borrowed
  buffers are never shared, that returning one releases exactly it, and that a call which borrows
  inside \<open>rb_ensure\<close> leaves the buffers as it found them whatever its body does.
\<close>

section \<open>Constants and cache line size\<close>

definition L1_CACHE_LINE_MAX :: "64 word" where "L1_CACHE_LINE_MAX = 128"

text \<open>The argument is the answer of \<open>sysconf\<close>, \<^term>\<open>None\<close> where the system has no such name.\<close>

definition l1_cache_line_size_detect :: "int option \<Rightarrow> 64 word" where
  "l1_cache_line_size_detect sysconf = (case sysconf of
       None \<Rightarrow> L1_CACHE_LINE_MAX
     | Some tmp \<Rightarrow> if tmp > 0 \<and> tmp \<le> uint L1_CACHE_LINE_MAX then of_int tmp else L1_CACHE_LINE_MAX)"

definition UINT32_MAX :: "64 word" where "UINT32_MAX = 2 ^ 32 - 1"

definition sizeof_rb_sp_tlsbuf :: "64 word" where "sizeof_rb_sp_tlsbuf = 8"

section \<open>Memory\<close>

definition deref :: "nat \<Rightarrow> ('k, rb_sp_tlsbuf) M" where
  "deref p = bindE (readS (\<lambda>s. heap s p)) (\<lambda>b. case b of
       None \<Rightarrow> throw (UB ''dereference of a dead buffer'') | Some x \<Rightarrow> ret x)"

definition store :: "nat \<Rightarrow> (rb_sp_tlsbuf \<Rightarrow> rb_sp_tlsbuf) \<Rightarrow> ('k, unit) M" where
  "store p f = bindE (deref p) (\<lambda>b. modS (\<lambda>s. s\<lparr>heap := (heap s)(p \<mapsto> f b)\<rparr>))"

definition free_buf :: "nat \<Rightarrow> ('k, unit) M" where
  "free_buf p = bindE (deref p) (\<lambda>_. modS (\<lambda>s. s\<lparr>heap := (heap s)(p := None)\<rparr>))"

definition set_buf_type :: "nat \<Rightarrow> rb_sp_tls_buf_type \<Rightarrow> ('k, unit) M" where
  "set_buf_type p ty = store p (buf_type_update (\<lambda>_. ty))"

definition set_ptr :: "nat \<Rightarrow> payload \<Rightarrow> ('k, unit) M" where
  "set_ptr p x = store p (ptr_update (\<lambda>_. x))"

section \<open>Allocation, borrowing, returning\<close>

text \<open>
  \<open>line\<close> is \<open>rb_sp_l1_cache_line_size\<close>.  A fresh block has an address no block had before.
  Its \<open>buf_type\<close> is uninitialised in C and set by both callers before it is read; here it is the one
  value that no borrowed buffer may have, so a caller that forgot to set it would not go unnoticed.
\<close>

definition alloc_tlsbuf :: "'k vm \<Rightarrow> 64 word \<Rightarrow> 64 word \<Rightarrow> ('k, nat) M" where
  "alloc_tlsbuf V line sz =
     (let bytes = sz + sizeof_rb_sp_tlsbuf in
      bindE (if sz \<ge> UINT32_MAX then ret True else envE (vm_posix_memalign V line bytes)) (\<lambda>failed.
      if failed then rb_raise NoMemoryError
      else bindE (readS brk) (\<lambda>p.
           bindE (modS (\<lambda>s. s\<lparr>heap := (heap s)(p \<mapsto>
                    \<lparr>capa = ucast sz, buf_type = RB_SP_TLS_READY, ptr = P_uninit\<rparr>),
                  brk := Suc p\<rparr>)) (\<lambda>_.
           ret p))))"

text \<open>The part of \<open>rb_sp_gettlsbuf\<close> after \<open>free(buf)\<close>: a new buffer for the key.\<close>

definition replace_tlsbuf :: "'k vm \<Rightarrow> 64 word \<Rightarrow> 64 word \<Rightarrow> ('k, nat \<times> 64 word) M" where
  "replace_tlsbuf V line sz =
     bindE (alloc_tlsbuf V line sz) (\<lambda>buf.
     bindE (envE (vm_setspecific V)) (\<lambda>err.
     case err of
       Some e \<Rightarrow> bindE (free_buf buf) (\<lambda>_. bindE (set_errno e) (\<lambda>_.
                   rb_sys_fail ''BUG: pthread_setspecific''))
     | None \<Rightarrow> bindE (modS (\<lambda>s. s\<lparr>rb_sp_key := Some buf\<rparr>)) (\<lambda>_.
               bindE (set_buf_type buf RB_SP_TLS_INUSE) (\<lambda>_.
               ret (buf, sz)))))"

definition rb_sp_gettlsbuf :: "'k vm \<Rightarrow> 64 word \<Rightarrow> 64 word \<Rightarrow> ('k, nat \<times> 64 word) M" where
  "rb_sp_gettlsbuf V line sz =
     bindE (readS rb_sp_key) (\<lambda>key. case key of
       None \<Rightarrow> replace_tlsbuf V line sz
     | Some buf \<Rightarrow>
         bindE (deref buf) (\<lambda>b.
         bindE (c_assert (buf_type b \<noteq> RB_SP_TLS_MALLOCED) ''gettlsbuf: malloced buffer under the key'') (\<lambda>_.
         if buf_type b \<noteq> RB_SP_TLS_READY then
           bindE (alloc_tlsbuf V line sz) (\<lambda>new.
           bindE (set_buf_type new RB_SP_TLS_MALLOCED) (\<lambda>_.
           ret (new, sz)))
         else if ucast (capa b) \<ge> sz then
           bindE (set_buf_type buf RB_SP_TLS_INUSE) (\<lambda>_.
           ret (buf, ucast (capa b)))
         else
           bindE (free_buf buf) (\<lambda>_. replace_tlsbuf V line sz))))"

text \<open>\<^term>\<open>None\<close> is the null pointer.  The value returned is always \<open>Qfalse\<close>.\<close>

definition rb_sp_puttlsbuf :: "nat option \<Rightarrow> ('k, val) M" where
  "rb_sp_puttlsbuf p = (case p of
       None \<Rightarrow> ret VFalse
     | Some buf \<Rightarrow>
         bindE (readS rb_sp_key) (\<lambda>tls.
         bindE (deref buf) (\<lambda>b.
         bindE (case buf_type b of
             RB_SP_TLS_INUSE \<Rightarrow>
               bindE (c_assert (tls = Some buf) ''rb_sp_puttlsbuf mismatch'') (\<lambda>_.
               set_buf_type buf RB_SP_TLS_READY)
           | RB_SP_TLS_READY \<Rightarrow>
               bindE (c_assert False ''rb_sp_gettlsbuf not called'') (\<lambda>_. free_buf buf)
           | RB_SP_TLS_MALLOCED \<Rightarrow> free_buf buf) (\<lambda>_.
         ret VFalse))))"

section \<open>The discipline of the buffers\<close>

text \<open>
  The key's block is never a malloced one, every other live block is, and no block has an
  address that is still to be handed out.
\<close>

definition tls_inv :: "'k st \<Rightarrow> bool" where
  "tls_inv s \<longleftrightarrow>
     (\<forall>p b. heap s p = Some b \<longrightarrow> p < brk s) \<and>
     (\<forall>p b. heap s p = Some b \<and> buf_type b \<noteq> RB_SP_TLS_MALLOCED \<longrightarrow> rb_sp_key s = Some p) \<and>
     (\<forall>p. rb_sp_key s = Some p \<longrightarrow> (\<exists>b. heap s p = Some b \<and> buf_type b \<noteq> RB_SP_TLS_MALLOCED))"

text \<open>The buffers that are lent out at the moment.\<close>

definition lent :: "'k st \<Rightarrow> nat set" where
  "lent s = {p. \<exists>b. heap s p = Some b \<and> buf_type b \<noteq> RB_SP_TLS_READY}"

text \<open>
  \<open>tls_frame A s t\<close>: from \<open>s\<close> to \<open>t\<close> the same buffers stay lent, and those outside \<open>A\<close> keep
  their contents; those in \<open>A\<close> keep at least their capacity and their kind.
\<close>

definition tls_frame :: "nat set \<Rightarrow> 'k st \<Rightarrow> 'k st \<Rightarrow> bool" where
  "tls_frame A s t \<longleftrightarrow>
     tls_inv t \<and> lent t = lent s \<and>
     (\<forall>p \<in> lent s - A. heap t p = heap s p) \<and>
     (\<forall>p \<in> lent s. map_option capa (heap t p) = map_option capa (heap s p) \<and>
                   map_option buf_type (heap t p) = map_option buf_type (heap s p))"

text \<open>Every buffer in \<open>A\<close> is lent and its block satisfies \<open>J\<close>.\<close>

definition owned :: "nat set \<Rightarrow> (rb_sp_tlsbuf \<Rightarrow> bool) \<Rightarrow> 'k st \<Rightarrow> bool" where
  "owned A J s \<longleftrightarrow> (\<forall>p \<in> A. \<exists>b. heap s p = Some b \<and> buf_type b \<noteq> RB_SP_TLS_READY \<and> J b)"

text \<open>
  An action that borrows and returns in pairs, never crashes and changes no lent buffer outside
  \<open>A\<close>.  It is started with \<open>J\<close> true of the buffers in \<open>A\<close> and leaves \<open>K x\<close> true of them when it
  returns \<open>x\<close>: a Hoare triple for the buffers.
\<close>

definition disciplined ::
  "nat set \<Rightarrow> (rb_sp_tlsbuf \<Rightarrow> bool) \<Rightarrow> ('k, 'a) M \<Rightarrow> ('a \<Rightarrow> rb_sp_tlsbuf \<Rightarrow> bool) \<Rightarrow> bool" where
  "disciplined A J m K \<longleftrightarrow> (\<forall>s r t. tls_inv s \<longrightarrow> owned A J s \<longrightarrow> m s = Some (r, t) \<longrightarrow>
     tls_frame A s t \<and> (case r of Inl f \<Rightarrow> \<not> crash f | Inr x \<Rightarrow> owned A (K x) t))"

abbreviation balanced :: "('k, 'a) M \<Rightarrow> bool" where
  "balanced m \<equiv> disciplined {} (\<lambda>_. True) m (\<lambda>_ _. True)"

definition mem_ok :: "'k vm \<Rightarrow> bool" where
  "mem_ok V \<longleftrightarrow> (\<forall>a n e. \<not> fst (vm_posix_memalign V a n e)) \<and> (\<forall>e. fst (vm_setspecific V e) = None)"

lemma tls_invI:
  assumes "\<And>p b. heap s p = Some b \<Longrightarrow> p < brk s"
    and "\<And>p b. heap s p = Some b \<Longrightarrow> buf_type b \<noteq> RB_SP_TLS_MALLOCED \<Longrightarrow> rb_sp_key s = Some p"
    and "\<And>p. rb_sp_key s = Some p \<Longrightarrow> \<exists>b. heap s p = Some b \<and> buf_type b \<noteq> RB_SP_TLS_MALLOCED"
  shows "tls_inv s"
  using assms unfolding tls_inv_def by blast

lemma tls_inv_addr: "tls_inv s \<Longrightarrow> heap s p = Some b \<Longrightarrow> p < brk s"
  and tls_inv_not_malloced:
    "tls_inv s \<Longrightarrow> heap s p = Some b \<Longrightarrow> buf_type b \<noteq> RB_SP_TLS_MALLOCED \<Longrightarrow> rb_sp_key s = Some p"
  and tls_inv_key:
    "tls_inv s \<Longrightarrow> rb_sp_key s = Some p \<Longrightarrow> \<exists>b. heap s p = Some b \<and> buf_type b \<noteq> RB_SP_TLS_MALLOCED"
  unfolding tls_inv_def by blast+

lemma tls_inv_fresh: "tls_inv s \<Longrightarrow> heap s (brk s) = None"
  using tls_inv_addr [of s "brk s"] by (cases "heap s (brk s)") auto

lemma tls_frame_refl: "tls_inv s \<Longrightarrow> tls_frame A s s"
  by (simp add: tls_frame_def)

lemma tls_frame_trans: "tls_frame A s t \<Longrightarrow> tls_frame A t u \<Longrightarrow> tls_frame A s u"
  by (auto simp: tls_frame_def)

lemma tls_frame_mono: "tls_frame A s t \<Longrightarrow> A \<subseteq> B \<Longrightarrow> tls_frame B s t"
  by (auto simp: tls_frame_def)

lemma tls_frame_inv: "tls_frame A s t \<Longrightarrow> tls_inv t"
  and tls_frame_lent: "tls_frame A s t \<Longrightarrow> lent t = lent s"
  and tls_frame_heap: "tls_frame A s t \<Longrightarrow> p \<in> lent s \<Longrightarrow> p \<notin> A \<Longrightarrow> heap t p = heap s p"
  by (auto simp: tls_frame_def)

lemma bufs_eq_frame:
  assumes "bufs t = bufs s" and "tls_inv s"
  shows "tls_frame A s t"
proof -
  from assms(1) have eqs: "heap t = heap s" "brk t = brk s" "rb_sp_key t = rb_sp_key s"
    by (simp_all add: bufs_def)
  have "tls_inv t = tls_inv s" and "lent t = lent s" by (simp_all only: tls_inv_def lent_def eqs)
  with assms(2) eqs(1) show ?thesis by (simp add: tls_frame_def)
qed

lemma owned_lent: "owned A J s \<Longrightarrow> A \<subseteq> lent s"
  by (auto simp: owned_def lent_def)

lemma owned_empty [simp]: "owned {} J s"
  by (simp add: owned_def)

lemma owned_frame: "owned A J s \<Longrightarrow> tls_frame {} s t \<Longrightarrow> owned A J t"
  using owned_lent [of A J s] unfolding owned_def by (metis subsetD empty_iff tls_frame_heap)

lemma disciplinedD:
  assumes "disciplined A J m K" and "tls_inv s" and "owned A J s" and "m s = Some (r, t)"
  shows "tls_frame A s t" and "r = Inr x \<Longrightarrow> owned A (K x) t" and "r = Inl f \<Longrightarrow> \<not> crash f"
  using assms unfolding disciplined_def by fastforce+

lemma disciplinedI:
  assumes "\<And>s r t. tls_inv s \<Longrightarrow> owned A J s \<Longrightarrow> m s = Some (r, t) \<Longrightarrow>
     tls_frame A s t \<and> (case r of Inl f \<Rightarrow> \<not> crash f | Inr x \<Rightarrow> owned A (K x) t)"
  shows "disciplined A J m K"
  using assms unfolding disciplined_def by blast

lemma owned_mono: "owned A J s \<Longrightarrow> (\<And>b. J b \<Longrightarrow> J' b) \<Longrightarrow> owned A J' s"
  unfolding owned_def by blast

lemma disciplined_weaken:
  assumes "disciplined A J m K" and "\<And>b. J' b \<Longrightarrow> J b" and "\<And>x b. K x b \<Longrightarrow> K' x b"
  shows "disciplined A J' m K'"
proof (rule disciplinedI)
  fix s r t
  assume s: "tls_inv s" "owned A J' s" "m s = Some (r, t)"
  note d = disciplinedD [OF assms(1) s(1) owned_mono [OF s(2) assms(2)] s(3)]
  show "tls_frame A s t \<and> (case r of Inl f \<Rightarrow> \<not> crash f | Inr x \<Rightarrow> owned A (K' x) t)"
    using d by (cases r) (auto intro: owned_mono [OF _ assms(3)])
qed

lemma disc_pre: "(\<And>b. J' b \<Longrightarrow> J b) \<Longrightarrow> disciplined A J m K \<Longrightarrow> disciplined A J' m K"
  by (erule disciplined_weaken) auto

lemma balanced_disciplined:
  assumes m: "balanced m"
  shows "disciplined A J m (\<lambda>_. J)"
proof (rule disciplinedI)
  fix s r t
  assume s: "tls_inv s" and own: "owned A J s" and run: "m s = Some (r, t)"
  note d = disciplinedD [OF m s owned_empty run]
  have "tls_frame A s t" using d(1) by (rule tls_frame_mono) simp
  with owned_frame [OF own d(1)] d(3)
  show "tls_frame A s t \<and> (case r of Inl f \<Rightarrow> \<not> crash f | Inr x \<Rightarrow> owned A J t)"
    by (cases r) simp_all
qed

lemma balanced_keeps:
  assumes k: "keeps bufs m" and m: "safe m"
  shows "balanced m"
proof (rule disciplinedI)
  fix s r t
  assume s: "tls_inv s" and run: "m s = Some (r, t)"
  have "tls_frame {} s t" by (rule bufs_eq_frame [OF keepsD [OF k run] s])
  with run show "tls_frame {} s t \<and> (case r of Inl f \<Rightarrow> \<not> crash f | Inr x \<Rightarrow> owned {} (\<lambda>_. True) t)"
    by (cases r) (simp_all add: safeD [OF m])
qed

lemma disciplined_keeps: "keeps bufs m \<Longrightarrow> safe m \<Longrightarrow> disciplined A J m (\<lambda>_. J)"
  by (rule balanced_disciplined [OF balanced_keeps])

lemma disc_bindE:
  assumes m: "disciplined A J m K" and g: "\<And>x. disciplined A (K x) (g x) L"
  shows "disciplined A J (bindE m g) L"
proof (rule disciplinedI)
  fix s r t
  assume s: "tls_inv s" "owned A J s" and run: "bindE m g s = Some (r, t)"
  from run show "tls_frame A s t \<and> (case r of Inl f \<Rightarrow> \<not> crash f | Inr x \<Rightarrow> owned A (L x) t)"
  proof (cases rule: bindE_cases)
    case (err e)
    with disciplinedD [OF m s err(1)] show ?thesis by simp
  next
    case (val x u)
    note u = disciplinedD(1,2) [OF m s val(1)]
    note t = disciplinedD [OF g tls_frame_inv [OF u(1)] u(2) [OF refl] val(2)]
    from t tls_frame_trans [OF u(1)] show ?thesis by (cases r) simp_all
  qed
qed

lemma disc_ret: "(\<And>b. J b \<Longrightarrow> K x b) \<Longrightarrow> disciplined A J (ret x) K"
  by (auto simp: disciplined_def run_simps tls_frame_refl elim: owned_mono)

lemma disc_liftE:
  assumes "\<And>x. r = Inr x \<Longrightarrow> disciplined A J (g x) K" and "\<And>f. r = Inl f \<Longrightarrow> \<not> crash f"
  shows "disciplined A J (bindE (liftE r) g) K"
  using assms by (cases r) (auto simp: disciplined_def run_simps tls_frame_refl)

lemma disc_rb_raise: "disciplined A J (rb_raise e) K"
  by (auto simp: disciplined_def run_simps rb_raise_def tls_frame_refl)

lemma disc_rb_sys_fail: "disciplined A J (rb_sys_fail m) K"
  by (auto simp: disciplined_def run_simps rb_raise_def rb_sys_fail_def get_errno_def tls_frame_refl)

lemma disc_if:
  "(b \<Longrightarrow> disciplined A J m K) \<Longrightarrow> (\<not> b \<Longrightarrow> disciplined A J n K) \<Longrightarrow>
     disciplined A J (if b then m else n) K"
  by simp

lemma disc_case_option:
  "disciplined A J m K \<Longrightarrow> (\<And>x. disciplined A J (g x) K) \<Longrightarrow>
     disciplined A J (case y of None \<Rightarrow> m | Some x \<Rightarrow> g x) K"
  by (cases y) simp_all

lemma disc_loopE:
  fixes body :: "'x \<Rightarrow> ('k, 'x + 'b) M"
  assumes body: "\<And>x. disciplined A (J x) (body x) (\<lambda>r. case r of Inl x' \<Rightarrow> J x' | Inr a \<Rightarrow> K a)"
  shows "disciplined A (J x) (loopE body x) K"
proof (rule disciplinedI)
  fix s r t
  assume s: "tls_inv s" "owned A (J x) s" and run: "loopE body x s = Some (r, t)"
  let ?I = "\<lambda>x u. tls_frame A s u \<and> owned A (J x) u"
  let ?Q = "\<lambda>r u. tls_frame A s u \<and> (case r of Inl f \<Rightarrow> \<not> crash f | Inr a \<Rightarrow> owned A (K a) u)"
  have step: "tls_frame A s t' \<and> (case q of Inl f \<Rightarrow> \<not> crash f | Inr (Inl y') \<Rightarrow> owned A (J y') t'
      | Inr (Inr a) \<Rightarrow> owned A (K a) t')"
    if "?I y u" "body y u = Some (q, t')" for y u q t'
  proof -
    note d = disciplinedD [OF body tls_frame_inv [OF conjunct1 [OF that(1)]] conjunct2 [OF that(1)] that(2)]
    from d tls_frame_trans [OF conjunct1 [OF that(1)]] show ?thesis by (auto split: sum.splits)
  qed
  from run show "?Q r t"
    by (rule loopE_rule [where I = ?I and Q = ?Q])
      (simp add: s tls_frame_refl, drule (1) step, simp, drule (1) step, simp, drule (1) step, simp)
qed

section \<open>Borrowing and returning are what they should be\<close>

text \<open>The promise of a borrow: a buffer nobody else holds, as large as asked for.\<close>

definition lends :: "64 word \<Rightarrow> 'k st \<Rightarrow> nat \<times> 64 word \<Rightarrow> 'k st \<Rightarrow> bool" where
  "lends n s r t \<longleftrightarrow> tls_inv t \<and> fst r \<notin> lent s \<and> lent t = insert (fst r) (lent s) \<and>
     (\<forall>q \<in> lent s. heap t q = heap s q) \<and>
     (\<exists>b. heap t (fst r) = Some b \<and> n \<le> ucast (capa b) \<and> snd r = ucast (capa b))"

text \<open>The promise of a return: that buffer is free again, the others are untouched.\<close>

definition takes_back :: "nat \<Rightarrow> 'k st \<Rightarrow> 'k st \<Rightarrow> bool" where
  "takes_back p s t \<longleftrightarrow> tls_inv t \<and> lent t = lent s - {p} \<and> (\<forall>q \<in> lent s - {p}. heap t q = heap s q)"

lemma alloc_tlsbuf_run:
  assumes "mem_ok V" and "n < UINT32_MAX"
  obtains e where "alloc_tlsbuf V line n s = Some (Inr (brk s), s\<lparr>env := e,
      heap := (heap s)(brk s \<mapsto> \<lparr>capa = ucast n, buf_type = RB_SP_TLS_READY, ptr = P_uninit\<rparr>),
      brk := Suc (brk s)\<rparr>)"
proof (rule that [of "snd (vm_posix_memalign V line (n + sizeof_rb_sp_tlsbuf) (env s))"])
  from assms have "\<not> UINT32_MAX \<le> n" and "\<not> fst (vm_posix_memalign V line m e)" for m e
    by (simp_all add: not_le mem_ok_def)
  then show "alloc_tlsbuf V line n s = Some (Inr (brk s),
      s\<lparr>env := snd (vm_posix_memalign V line (n + sizeof_rb_sp_tlsbuf) (env s)),
      heap := (heap s)(brk s \<mapsto> \<lparr>capa = ucast n, buf_type = RB_SP_TLS_READY, ptr = P_uninit\<rparr>),
      brk := Suc (brk s)\<rparr>)"
    by (simp add: alloc_tlsbuf_def Let_def run_simps envE_def)
qed

lemma replace_tlsbuf_run:
  assumes "mem_ok V" and "n < UINT32_MAX"
  obtains e where "replace_tlsbuf V line n s = Some (Inr (brk s, n), s\<lparr>env := e,
      heap := (heap s)(brk s \<mapsto> \<lparr>capa = ucast n, buf_type = RB_SP_TLS_INUSE, ptr = P_uninit\<rparr>),
      brk := Suc (brk s), rb_sp_key := Some (brk s)\<rparr>)"
proof -
  obtain e where a: "alloc_tlsbuf V line n s = Some (Inr (brk s), s\<lparr>env := e,
      heap := (heap s)(brk s \<mapsto> \<lparr>capa = ucast n, buf_type = RB_SP_TLS_READY, ptr = P_uninit\<rparr>),
      brk := Suc (brk s)\<rparr>)" using assms by (rule alloc_tlsbuf_run)
  from assms(1) have "fst (vm_setspecific V x) = None" for x by (simp add: mem_ok_def)
  then show ?thesis
    by (intro that [of "snd (vm_setspecific V e)"]) (simp add: replace_tlsbuf_def run_simps a envE_def set_buf_type_def store_def deref_def)
qed

lemma small_size_ucast: "n < UINT32_MAX \<Longrightarrow> ucast (ucast n :: 32 word) = n"
  by (rule word_unat_eq_iff [THEN iffD2]) (simp add: UINT32_MAX_def unsigned_ucast_eq unsigned_take_bit_eq take_bit_nat_eq_self word_less_nat_alt)

text \<open>What the three ways of borrowing do to the pool.\<close>

lemma lends_malloced:
  assumes "tls_inv s" and "n < UINT32_MAX" and "rb_sp_key s = Some q"
    and b: "b = \<lparr>capa = ucast n, buf_type = RB_SP_TLS_MALLOCED, ptr = P_uninit\<rparr>"
    and t: "heap t = (heap s)(brk s \<mapsto> b)" "brk t = Suc (brk s)" "rb_sp_key t = rb_sp_key s"
  shows "lends n s (brk s, n) t"
proof -
  note old = tls_inv_fresh [OF assms(1)]
  have "tls_inv t"
    by (rule tls_invI)
      (use old tls_inv_addr [OF assms(1)] tls_inv_not_malloced [OF assms(1)] tls_inv_key [OF assms(1)]
        in \<open>auto simp: t b less_Suc_eq split: if_splits\<close>)
  moreover have "lent t = insert (brk s) (lent s)" by (auto simp: lent_def t b)
  ultimately show ?thesis using old
    by (auto simp: lends_def lent_def t b small_size_ucast [OF assms(2)])
qed

lemma lends_replaced:
  assumes inv: "tls_inv s" and n: "n < UINT32_MAX" and ready: "\<And>p b. heap s p = Some b \<Longrightarrow> buf_type b \<noteq> RB_SP_TLS_INUSE"
    and b: "b = \<lparr>capa = ucast n, buf_type = RB_SP_TLS_INUSE, ptr = P_uninit\<rparr>"
    and h: "\<And>p. heap u p = (if rb_sp_key s = Some p then None else heap s p)"
    and t: "heap t = (heap u)(brk s \<mapsto> b)" "brk t = Suc (brk s)" "rb_sp_key t = Some (brk s)"
  shows "lends n s (brk s, n) t"
proof -
  note old = tls_inv_fresh [OF inv]
  have key: "buf_type c = RB_SP_TLS_READY" if "rb_sp_key s = Some p" "heap s p = Some c" for p c
    using tls_inv_key [OF inv that(1)] that(2) ready [OF that(2)] by (cases "buf_type c") auto
  have rest: "buf_type c = RB_SP_TLS_MALLOCED" "p < brk s" if "rb_sp_key s \<noteq> Some p" "heap s p = Some c" for p c
    using tls_inv_not_malloced [OF inv that(2)] tls_inv_addr [OF inv that(2)] that(1) by auto
  have "tls_inv t"
    by (rule tls_invI) (use rest in \<open>auto simp: t h b less_Suc_eq split: if_splits\<close>)
  moreover have "lent t = insert (brk s) (lent s)"
    using key by (auto simp: lent_def t h b split: if_splits)
  moreover have "\<forall>q \<in> lent s. heap t q = heap s q"
    using key old by (auto simp: lent_def t h)
  ultimately show ?thesis using old
    by (auto simp: lends_def lent_def t b small_size_ucast [OF n])
qed

lemma lends_reused:
  assumes inv: "tls_inv s" and key: "rb_sp_key s = Some p" "heap s p = Some b"
    and ready: "buf_type b = RB_SP_TLS_READY" and n: "n \<le> ucast (capa b)"
    and t: "heap t = (heap s)(p \<mapsto> b\<lparr>buf_type := RB_SP_TLS_INUSE\<rparr>)" "brk t = brk s" "rb_sp_key t = rb_sp_key s"
  shows "lends n s (p, ucast (capa b)) t"
proof -
  have "tls_inv t"
  proof (rule tls_invI)
    show "q < brk t" if "heap t q = Some c" for q c
      using that tls_inv_addr [OF inv, of q] key(2) by (auto simp: t split: if_splits)
    show "rb_sp_key t = Some q" if "heap t q = Some c" "buf_type c \<noteq> RB_SP_TLS_MALLOCED" for q c
      using that tls_inv_not_malloced [OF inv, of q c] key by (auto simp: t split: if_splits)
    show "\<exists>c. heap t q = Some c \<and> buf_type c \<noteq> RB_SP_TLS_MALLOCED" if "rb_sp_key t = Some q" for q
      using that key by (simp add: t)
  qed
  moreover have "lent t = insert p (lent s)" by (auto simp: lent_def t)
  ultimately show ?thesis using key ready n by (auto simp: lends_def lent_def t)
qed

lemma gettlsbuf_lends:
  assumes V: "mem_ok V" and inv: "tls_inv s" and n: "n < UINT32_MAX"
  shows "\<exists>r t. rb_sp_gettlsbuf V line n s = Some (Inr r, t) \<and> lends n s r t"
proof (cases "rb_sp_key s")
  case None
  have "buf_type b \<noteq> RB_SP_TLS_INUSE" if "heap s p = Some b" for p b
    using tls_inv_not_malloced [OF inv that] None by auto
  then have "lends n s (brk s, n) t"
    if "heap t = (heap s)(brk s \<mapsto> \<lparr>capa = ucast n, buf_type = RB_SP_TLS_INUSE, ptr = P_uninit\<rparr>)"
      "brk t = Suc (brk s)" "rb_sp_key t = Some (brk s)" for t
    by (rule lends_replaced [where u = s, OF inv n _ refl]) (simp_all add: that None)
  moreover obtain e where "replace_tlsbuf V line n s = Some (Inr (brk s, n), s\<lparr>env := e,
      heap := (heap s)(brk s \<mapsto> \<lparr>capa = ucast n, buf_type = RB_SP_TLS_INUSE, ptr = P_uninit\<rparr>),
      brk := Suc (brk s), rb_sp_key := Some (brk s)\<rparr>)" using V n by (rule replace_tlsbuf_run)
  ultimately show ?thesis using None by (simp add: rb_sp_gettlsbuf_def run_simps)
next
  case (Some p)
  then obtain b where b: "heap s p = Some b" "buf_type b \<noteq> RB_SP_TLS_MALLOCED"
    using tls_inv_key [OF inv] by blast
  note run = rb_sp_gettlsbuf_def run_simps deref_def c_assert_def set_buf_type_def store_def
  show ?thesis
  proof (cases "buf_type b = RB_SP_TLS_READY")
    case False
    obtain e where a: "alloc_tlsbuf V line n s = Some (Inr (brk s), s\<lparr>env := e,
        heap := (heap s)(brk s \<mapsto> \<lparr>capa = ucast n, buf_type = RB_SP_TLS_READY, ptr = P_uninit\<rparr>),
        brk := Suc (brk s)\<rparr>)" using V n by (rule alloc_tlsbuf_run)
    show ?thesis using Some b False a
      by (simp add: run) (rule lends_malloced [OF inv n Some refl], simp_all)
  next
    case ready: True
    show ?thesis
    proof (cases "n \<le> ucast (capa b)")
      case True
      with Some b ready show ?thesis
        by (simp add: run) (rule lends_reused [OF inv Some b(1) ready], simp_all)
    next
      case False
      let ?u = "s\<lparr>heap := (heap s)(p := None)\<rparr>"
      obtain e where a: "replace_tlsbuf V line n ?u = Some (Inr (brk ?u, n), ?u\<lparr>env := e,
          heap := (heap ?u)(brk ?u \<mapsto> \<lparr>capa = ucast n, buf_type = RB_SP_TLS_INUSE, ptr = P_uninit\<rparr>),
          brk := Suc (brk ?u), rb_sp_key := Some (brk ?u)\<rparr>)" using V n by (rule replace_tlsbuf_run)
      have "buf_type c \<noteq> RB_SP_TLS_INUSE" if "heap s q = Some c" for q c
        using tls_inv_not_malloced [OF inv that] Some b(1) ready that by auto
      then have "lends n s (brk s, n) t"
        if "heap t = (heap ?u)(brk s \<mapsto> \<lparr>capa = ucast n, buf_type = RB_SP_TLS_INUSE, ptr = P_uninit\<rparr>)"
          "brk t = Suc (brk s)" "rb_sp_key t = Some (brk s)" for t
        by (rule lends_replaced [where u = ?u, OF inv n _ refl]) (simp_all add: that Some)
      with Some b ready False a show ?thesis by (simp add: run free_buf_def)
    qed
  qed
qed

lemma puttlsbuf_takes_back:
  assumes inv: "tls_inv s" and p: "p \<in> lent s"
  shows "\<exists>t. rb_sp_puttlsbuf (Some p) s = Some (Inr VFalse, t) \<and> takes_back p s t"
proof -
  from p obtain b where b: "heap s p = Some b" "buf_type b \<noteq> RB_SP_TLS_READY" by (auto simp: lent_def)
  note run = rb_sp_puttlsbuf_def run_simps deref_def c_assert_def set_buf_type_def store_def free_buf_def
  show ?thesis
  proof (cases "buf_type b")
    case RB_SP_TLS_INUSE
    then have key: "rb_sp_key s = Some p" using tls_inv_not_malloced [OF inv b(1)] by simp
    let ?t = "s\<lparr>heap := (heap s)(p \<mapsto> b\<lparr>buf_type := RB_SP_TLS_READY\<rparr>)\<rparr>"
    have "tls_inv ?t"
    proof (rule tls_invI)
      show "q < brk ?t" if "heap ?t q = Some c" for q c
        using that tls_inv_addr [OF inv, of q] b(1) by (auto split: if_splits)
      show "rb_sp_key ?t = Some q" if "heap ?t q = Some c" "buf_type c \<noteq> RB_SP_TLS_MALLOCED" for q c
        using that tls_inv_not_malloced [OF inv, of q c] key by (auto split: if_splits)
    qed (use key in simp)
    then have "takes_back p s ?t" by (auto simp: takes_back_def lent_def)
    with RB_SP_TLS_INUSE key b show ?thesis by (simp add: run)
  next
    case RB_SP_TLS_MALLOCED
    let ?t = "s\<lparr>heap := (heap s)(p := None)\<rparr>"
    have key: "rb_sp_key s \<noteq> Some p" using tls_inv_key [OF inv, of p] b RB_SP_TLS_MALLOCED by auto
    have "tls_inv ?t"
    proof (rule tls_invI)
      show "q < brk ?t" if "heap ?t q = Some c" for q c
        using that tls_inv_addr [OF inv, of q] by (auto split: if_splits)
      show "rb_sp_key ?t = Some q" if "heap ?t q = Some c" "buf_type c \<noteq> RB_SP_TLS_MALLOCED" for q c
        using that tls_inv_not_malloced [OF inv, of q c] by (auto split: if_splits)
      show "\<exists>c. heap ?t q = Some c \<and> buf_type c \<noteq> RB_SP_TLS_MALLOCED" if "rb_sp_key ?t = Some q" for q
        using that tls_inv_key [OF inv, of q] key by auto
    qed
    then have "takes_back p s ?t" by (auto simp: takes_back_def lent_def)
    with RB_SP_TLS_MALLOCED b show ?thesis by (simp add: run)
  qed (use b in simp)
qed

section \<open>The interface the clients rely on\<close>

text \<open>
  An action that starts with buffer \<open>p\<close> lent (and \<open>J\<close> true of it) and has returned it at its end,
  on every path.
\<close>

definition releases :: "nat \<Rightarrow> (rb_sp_tlsbuf \<Rightarrow> bool) \<Rightarrow> ('k, 'a) M \<Rightarrow> bool" where
  "releases p J m \<longleftrightarrow> (\<forall>s r t. tls_inv s \<longrightarrow> owned {p} J s \<longrightarrow> m s = Some (r, t) \<longrightarrow>
     takes_back p s t \<and> (\<forall>f. r = Inl f \<longrightarrow> \<not> crash f))"

lemma releasesD:
  assumes "releases p J m" and "tls_inv s" and "owned {p} J s" and "m s = Some (r, t)"
  shows "takes_back p s t" and "r = Inl f \<Longrightarrow> \<not> crash f"
  using assms unfolding releases_def by blast+

lemma frame_takes_back: "tls_frame {p} s u \<Longrightarrow> takes_back p u t \<Longrightarrow> takes_back p s t"
  by (auto simp: tls_frame_def takes_back_def)

lemma lends_owned:
  assumes "lends n s r u"
  shows "tls_inv u" and "owned {fst r} (\<lambda>b. n \<le> ucast (capa b)) u"
proof -
  from assms have "fst r \<in> lent u" by (simp add: lends_def)
  then obtain b where "heap u (fst r) = Some b" and "buf_type b \<noteq> RB_SP_TLS_READY"
    by (auto simp: lent_def)
  with assms show "owned {fst r} (\<lambda>b. n \<le> ucast (capa b)) u"
    by (auto simp: lends_def owned_def)
  from assms show "tls_inv u" by (simp add: lends_def)
qed

locale scratch_pool =
  fixes avail :: "'v \<Rightarrow> bool"
    and get :: "'v \<Rightarrow> 64 word \<Rightarrow> ('k, nat \<times> 64 word) M"
    and put :: "nat option \<Rightarrow> ('k, val) M"
  assumes get_lends: "avail V \<Longrightarrow> tls_inv s \<Longrightarrow> n < UINT32_MAX \<Longrightarrow>
        \<exists>r t. get V n s = Some (Inr r, t) \<and> lends n s r t"
    and put_takes_back: "tls_inv s \<Longrightarrow> p \<in> lent s \<Longrightarrow>
        \<exists>t. put (Some p) s = Some (Inr VFalse, t) \<and> takes_back p s t"
begin

lemma ensure_releases:
  assumes body: "disciplined {p} J body K"
  shows "releases p J (rb_ensure body (put (Some p)))"
  unfolding releases_def
proof (intro allI impI)
  fix s r t
  assume s: "tls_inv s" "owned {p} J s" and run: "rb_ensure body (put (Some p)) s = Some (r, t)"
  from run obtain q u where q: "body s = Some (q, u)" by (auto simp: rb_ensure_def split: option.splits)
  note d = disciplinedD [OF body s q]
  from d(1) s(2) have "p \<in> lent u" by (auto simp: tls_frame_lent dest: owned_lent)
  then obtain t' where t': "put (Some p) u = Some (Inr VFalse, t')" "takes_back p u t'"
    using put_takes_back tls_frame_inv [OF d(1)] by blast
  have "t = t' \<and> r = q"
    using run d(3) by (cases q; cases "projl q")
      (auto simp: rb_ensure_def q t'(1) rb_raise_def run_simps)
  with d(3) frame_takes_back [OF d(1) t'(2)]
  show "takes_back p s t \<and> (\<forall>f. r = Inl f \<longrightarrow> \<not> crash f)" by simp
qed

lemma borrow_balanced:
  assumes V: "avail V" and n: "n < UINT32_MAX"
    and rest: "\<And>r. releases (fst r) (\<lambda>b. n \<le> ucast (capa b)) (rest r)"
  shows "balanced (bindE (get V n) rest)"
proof (rule disciplinedI)
  fix s q t
  assume s: "tls_inv s" and run: "bindE (get V n) rest s = Some (q, t)"
  from get_lends [OF V s n] obtain r u where u: "get V n s = Some (Inr r, u)" "lends n s r u" by blast
  from u run have k: "rest r u = Some (q, t)" by (simp add: run_simps)
  note inv = lends_owned(1) [OF u(2)] and own = lends_owned(2) [OF u(2)]
  from releasesD [OF rest inv own k] u(2)
  show "tls_frame {} s t \<and> (case q of Inl f \<Rightarrow> \<not> crash f | Inr x \<Rightarrow> owned {} (\<lambda>_. True) t)"
    by (cases q) (auto simp: tls_frame_def takes_back_def lends_def)
qed

end

interpretation tls: scratch_pool "\<lambda>c. mem_ok (fst c)" "\<lambda>c. rb_sp_gettlsbuf (fst c) (snd c)" rb_sp_puttlsbuf
  by unfold_locales (rule gettlsbuf_lends puttlsbuf_takes_back; assumption)+

section \<open>Working on a borrowed buffer\<close>

lemma disc_deref: "disciplined {p} J (deref p) (\<lambda>b c. c = b \<and> J c)"
proof (rule disciplinedI)
  fix s :: "'k st" and r t
  assume s: "tls_inv s" and own: "owned {p} J s" and run: "deref p s = Some (r, t)"
  from own obtain b where b: "heap s p = Some b" "buf_type b \<noteq> RB_SP_TLS_READY" "J b"
    by (auto simp: owned_def)
  with run have "r = Inr b" "t = s" by (simp_all add: run_simps deref_def)
  with s b show "tls_frame {p} s t \<and> (case r of Inl f \<Rightarrow> \<not> crash f | Inr b \<Rightarrow> owned {p} (\<lambda>c. c = b \<and> J c) t)"
    by (simp add: owned_def tls_frame_refl)
qed

text \<open>Overwriting the contents of a lent buffer.\<close>

lemma store_ptr_frame:
  assumes s: "tls_inv s" and b: "heap s p = Some b" "buf_type b \<noteq> RB_SP_TLS_READY"
  shows "set_ptr p x s = Some (Inr (), s\<lparr>heap := (heap s)(p \<mapsto> b\<lparr>ptr := x\<rparr>)\<rparr>)"
    and "tls_frame {p} s (s\<lparr>heap := (heap s)(p \<mapsto> b\<lparr>ptr := x\<rparr>)\<rparr>)" (is "tls_frame _ _ ?t")
proof -
  show "set_ptr p x s = Some (Inr (), ?t)"
    using b by (simp add: set_ptr_def store_def deref_def run_simps)
  have "tls_inv ?t"
  proof (rule tls_invI)
    show "q < brk ?t" if "heap ?t q = Some c" for q c
      using that tls_inv_addr [OF s, of q] b(1) by (auto split: if_splits)
    show "rb_sp_key ?t = Some q" if "heap ?t q = Some c" "buf_type c \<noteq> RB_SP_TLS_MALLOCED" for q c
      using that tls_inv_not_malloced [OF s, of q] b(1) by (auto split: if_splits)
    show "\<exists>c. heap ?t q = Some c \<and> buf_type c \<noteq> RB_SP_TLS_MALLOCED" if "rb_sp_key ?t = Some q" for q
      using that tls_inv_key [OF s, of q] b(1) by auto
  qed
  moreover have "lent ?t = lent s" using b by (auto simp: lent_def)
  ultimately show "tls_frame {p} s ?t" using b by (auto simp: tls_frame_def)
qed

lemma disc_set_ptr: "disciplined {p} (\<lambda>b. J (b\<lparr>ptr := x\<rparr>)) (set_ptr p x) (\<lambda>_. J)"
proof (rule disciplinedI)
  fix s :: "'k st" and r t
  assume s: "tls_inv s" and own: "owned {p} (\<lambda>b. J (b\<lparr>ptr := x\<rparr>)) s" and run: "set_ptr p x s = Some (r, t)"
  from own obtain b where b: "heap s p = Some b" "buf_type b \<noteq> RB_SP_TLS_READY" "J (b\<lparr>ptr := x\<rparr>)"
    by (auto simp: owned_def)
  from store_ptr_frame [OF s b(1,2), of x] run b
  show "tls_frame {p} s t \<and> (case r of Inl f \<Rightarrow> \<not> crash f | Inr y \<Rightarrow> owned {p} J t)"
    by (auto simp: owned_def)
qed

lemma releases_set_ptr:
  assumes J: "\<And>b. J b \<Longrightarrow> J' (b\<lparr>ptr := x\<rparr>)" and k: "releases p J' k"
  shows "releases p J (bindE (set_ptr p x) (\<lambda>_. k))"
  unfolding releases_def
proof (intro allI impI)
  fix s r t
  assume s: "tls_inv s" and own: "owned {p} J s" and run: "bindE (set_ptr p x) (\<lambda>_. k) s = Some (r, t)"
  from own obtain b where b: "heap s p = Some b" "buf_type b \<noteq> RB_SP_TLS_READY" "J b"
    by (auto simp: owned_def)
  let ?u = "s\<lparr>heap := (heap s)(p \<mapsto> b\<lparr>ptr := x\<rparr>)\<rparr>"
  note st = store_ptr_frame [OF s b(1,2), of x]
  from run have k': "k ?u = Some (r, t)" by (simp add: run_simps st(1))
  have "owned {p} J' ?u" using b J by (simp add: owned_def)
  from releasesD [OF k tls_frame_inv [OF st(2)] this k'] frame_takes_back [OF st(2)]
  show "takes_back p s t \<and> (\<forall>f. r = Inl f \<longrightarrow> \<not> crash f)" by blast
qed

lemma disc_bindE_keeps:
  assumes "keeps bufs m" and "safe m" and "\<And>x. disciplined A J (g x) L"
  shows "disciplined A J (bindE m g) L"
  by (rule disc_bindE [OF disciplined_keeps [OF assms(1,2)] assms(3)])

lemma disc_without_gvl:
  assumes "disciplined A J m K"
  shows "disciplined A J (without_gvl V m) K"
  unfolding without_gvl_def
  by (intro disc_bindE [OF assms] disc_bindE_keeps keeps_intros safe_intros disc_case_option
      disc_ret disc_rb_raise; assumption)

text \<open>Facts about the block that the precondition carries may be used in the proof.\<close>

lemma disc_known: "(\<And>b. J b \<Longrightarrow> disciplined {p} J m K) \<Longrightarrow> disciplined {p} J m K"
  unfolding disciplined_def owned_def by blast

lemma disc_syscall:
  assumes ok: "\<And>x e e'. f e = (Inr x, e') \<Longrightarrow> disciplined A J (g (Some x)) K"
    and fails: "disciplined A J (g None) K"
  shows "disciplined A J (bindE (syscall f) g) K"
proof (rule disciplinedI)
  fix s r t
  assume s: "tls_inv s" and own: "owned A J s" and run: "bindE (syscall f) g s = Some (r, t)"
  obtain a e' where f: "f (env s) = (a, e')" by fastforce
  have env: "tls_inv (s\<lparr>env := e\<rparr>)" "owned A J (s\<lparr>env := e\<rparr>)" "tls_frame A s (s\<lparr>env := e\<rparr>)" for e
  proof -
    have fr: "tls_frame {} s (s\<lparr>env := e\<rparr>)" by (rule bufs_eq_frame [OF _ s]) simp
    then show "tls_inv (s\<lparr>env := e\<rparr>)" "owned A J (s\<lparr>env := e\<rparr>)" "tls_frame A s (s\<lparr>env := e\<rparr>)"
      by (simp_all add: tls_frame_inv owned_frame [OF own] tls_frame_mono [OF _ empty_subsetI])
  qed
  obtain u y where u: "g y (s\<lparr>env := u\<rparr>) = Some (r, t)" and d: "disciplined A J (g y) K"
  proof (cases a)
    case (Inl er)
    with run f have "g None (s\<lparr>env := e'\<lparr>errno := er\<rparr>\<rparr>) = Some (r, t)"
      by (simp add: run_simps syscall_def envE_def set_errno_def)
    then show ?thesis using fails by (rule that)
  next
    case (Inr x)
    with run f have "g (Some x) (s\<lparr>env := e'\<rparr>) = Some (r, t)"
      by (simp add: run_simps syscall_def envE_def)
    moreover from f Inr have "disciplined A J (g (Some x)) K" by (intro ok) simp
    ultimately show ?thesis by (rule that)
  qed
  show "tls_frame A s t \<and> (case r of Inl f \<Rightarrow> \<not> crash f | Inr x \<Rightarrow> owned A (K x) t)"
    using disciplinedD [OF d env(1,2) u] tls_frame_trans [OF env(3)] by (cases r) simp_all
qed

text \<open>The pool does not look at the environment.\<close>

lemma lent_env [simp]: "lent (s\<lparr>env := e\<rparr>) = lent s" and tls_inv_env [simp]: "tls_inv (s\<lparr>env := e\<rparr>) = tls_inv s"
  by (simp_all add: lent_def tls_inv_def)

text \<open>
  \<open>alloc_keeps V f\<close>: allocating memory does not change what \<open>f\<close> shows of the environment;
  \<open>steady V f\<close>: serving interrupts does not either, and no interrupt raises.
\<close>

definition alloc_keeps :: "'k vm \<Rightarrow> ('k env \<Rightarrow> 'c) \<Rightarrow> bool" where
  "alloc_keeps V f \<longleftrightarrow>
     (\<forall>e x. f (e\<lparr>errno := x\<rparr>) = f e) \<and>
     (\<forall>a n e. f (snd (vm_posix_memalign V a n e)) = f e) \<and>
     (\<forall>e. f (snd (vm_setspecific V e)) = f e)"

definition steady :: "'k vm \<Rightarrow> ('k env \<Rightarrow> 'c) \<Rightarrow> bool" where
  "steady V f \<longleftrightarrow> alloc_keeps V f \<and>
     (\<forall>e. fst (vm_check_ints V e) = None \<and> f (snd (vm_check_ints V e)) = f e)"

lemma keeps_env_envE: "(\<And>e. f (snd (g e)) = f e) \<Longrightarrow> keeps (\<lambda>s. f (env s)) (envE g)"
  by (simp add: keeps_def envE_def)

lemma keeps_env_gettlsbuf:
  assumes "alloc_keeps V f"
  shows "keeps (\<lambda>s. f (env s)) (rb_sp_gettlsbuf V line n)"
proof -
  from assms have m: "keeps (\<lambda>s. f (env s)) (envE (vm_posix_memalign V a k))"
    and p: "keeps (\<lambda>s. f (env s)) (envE (vm_setspecific V))"
    and er: "keeps (\<lambda>s. f (env s)) (set_errno x)" for a k x
    by (simp_all add: alloc_keeps_def keeps_def set_errno_def run_simps envE_def)
  show ?thesis
    unfolding rb_sp_gettlsbuf_def replace_tlsbuf_def alloc_tlsbuf_def Let_def deref_def free_buf_def
      set_buf_type_def store_def
    by (intro keeps_intros m p er keeps_modS) simp_all
qed

lemma steady_region:
  assumes "steady V f" and "m s = Some (Inr r, t)"
  shows "\<exists>e'. without_gvl V m s = Some (Inr r, t\<lparr>env := e'\<rparr>) \<and> f e' = f (env t)"
proof -
  from assms(1) have c: "fst (vm_check_ints V (env t)) = None" "f (snd (vm_check_ints V (env t))) = f (env t)"
    and x: "f (e\<lparr>errno := y\<rparr>) = f e" for e y
    unfolding steady_def alloc_keeps_def by blast+
  show ?thesis
    by (intro exI [of _ "(snd (vm_check_ints V (env t)))\<lparr>errno := errno (env t)\<rparr>"])
      (simp add: without_gvl_def run_simps assms(2) get_errno_def set_errno_def envE_def c x)
qed

section \<open>Yielding what a buffer holds\<close>

text \<open>
  epoll.c and kqueue.c call the block for one event after another and read each event from the
  scratch buffer only then.  The block may itself borrow buffers and wait; as long as it gives them
  back, this is the same as going through the list of events that was in the buffer at the start.
\<close>

locale event_buffer =
  fixes B :: "'k blk" and p :: nat and events_of :: "payload \<Rightarrow> 'ev list option" and args :: "'ev \<Rightarrow> val list"
    and loop :: "nat \<Rightarrow> nat \<Rightarrow> ('k, unit) M"
  assumes loop_0: "loop 0 i = ret ()"
    and loop_Suc: "heap s p = Some b \<Longrightarrow> events_of (ptr b) = Some evs \<Longrightarrow> i < length evs \<Longrightarrow>
       loop (Suc k) i s = bindE (B (args (evs ! i))) (\<lambda>_. loop k (Suc i)) s"
begin

lemma loop_yields:
  assumes B: "\<And>v. balanced (B v)" and "tls_inv s" and "p \<in> lent s"
    and "heap s p = Some b" and e: "events_of (ptr b) = Some evs" and "i + k \<le> length evs"
  shows "loop k i s = yields B (map args (take k (drop i evs))) s"
  using assms(2-4,6)
proof (induction k arbitrary: i s)
  case 0
  show ?case by (simp add: loop_0)
next
  case (Suc k)
  let ?x = "args (evs ! i)"
  from Suc.prems have i: "i < length evs" by simp
  then have "take (Suc k) (drop i evs) = evs ! i # take k (drop (Suc i) evs)"
    by (metis Cons_nth_drop_Suc take_Suc_Cons)
  then have rhs: "yields B (map args (take (Suc k) (drop i evs))) s =
      bindE (B ?x) (\<lambda>_. yields B (map args (take k (drop (Suc i) evs)))) s" by simp
  have "loop k (Suc i) u = yields B (map args (take k (drop (Suc i) evs))) u"
    if "B ?x s = Some (Inr y, u)" for y u
  proof -
    note fr = disciplinedD(1) [OF B Suc.prems(1) owned_empty that]
    from fr Suc.prems show ?thesis
      by (intro Suc.IH) (simp_all add: tls_frame_inv tls_frame_lent tls_frame_heap)
  qed
  then show ?case
    unfolding loop_Suc [OF Suc.prems(3) e i] rhs by (auto simp: run_simps split: option.splits prod.splits sum.splits)
qed

lemma loop_yields_all:
  assumes "\<And>v. balanced (B v)" and "tls_inv s" and "p \<in> lent s" and "heap s p = Some b"
    and "events_of (ptr b) = Some evs" and "n \<le> length evs"
  shows "loop n 0 s = yields B (map args (take n evs)) s"
  using loop_yields [OF assms(1-5), of 0 n] assms(6) by simp

end

section \<open>The pool of the sample runtime\<close>

lemma sample_mem_ok: "mem_ok sample_vm"
  by (simp add: mem_ok_def sample_vm_def)

lemma sample_alloc_keeps: "alloc_keeps sample_vm ios"
  by (simp add: alloc_keeps_def sample_vm_def)

lemma sample_pool: "tls_inv (sample_st n)" "lent (sample_st n) = {}"
  by (simp_all add: tls_inv_def lent_def sample_st_def)

lemma balanced_leaf: "balanced (ret v)"
  by (rule disc_ret) simp

lemma sample_block: "Some (\<lambda>v. ret VNil) = Some B \<Longrightarrow> balanced (B v)"
  using balanced_leaf by auto

section \<open>Properties\<close>

text \<open>C5: borrowing a scratch buffer always succeeds while memory lasts and gives a buffer that no
  call in progress holds, at least as large as asked for and of the size reported back; the
  buffers of the calls in progress are not touched.\<close>

theorem gettlsbuf_exclusive:
  assumes "mem_ok V" and "tls_inv s" and "n < UINT32_MAX"
  shows "\<exists>p m t b. rb_sp_gettlsbuf V line n s = Some (Inr (p, m), t) \<and> tls_inv t \<and>
    p \<notin> lent s \<and> lent t = insert p (lent s) \<and> (\<forall>q \<in> lent s. heap t q = heap s q) \<and>
    heap t p = Some b \<and> n \<le> m \<and> m = ucast (capa b)"
proof -
  obtain r t where "rb_sp_gettlsbuf V line n s = Some (Inr r, t)" and l: "lends n s r t"
    using tls.get_lends [of "(V, line)" s n, unfolded fst_conv snd_conv, OF assms] by blast
  moreover from l obtain b where "heap t (fst r) = Some b" "n \<le> ucast (capa b)" "snd r = ucast (capa b)"
    by (auto simp: lends_def)
  ultimately show ?thesis using l by (intro exI [of _ "fst r"] exI [of _ "snd r"] exI [of _ t] exI [of _ b])
      (auto simp: lends_def prod_eq_iff)
qed

theorem gettlsbuf_exclusive_witness:
  "\<exists>p m t b. rb_sp_gettlsbuf sample_vm 64 100 (sample_st 0) = Some (Inr (p, m), t) \<and> lent t = {p} \<and>
    heap t p = Some b \<and> 100 \<le> m \<and> m = ucast (capa b)"
proof -
  note sample_mem_ok
  moreover note sample_pool
  moreover have "(100 :: 64 word) < UINT32_MAX" by (simp add: UINT32_MAX_def)
  ultimately show ?thesis using gettlsbuf_exclusive [of sample_vm "sample_st 0" 100 64] by auto
qed

text \<open>C6: returning a borrowed buffer never fails an assertion and releases exactly that buffer: the
  key's buffer becomes ready again, an extra buffer is freed, the others keep their contents.\<close>

theorem puttlsbuf_releases:
  assumes "tls_inv s" and "p \<in> lent s"
  shows "\<exists>t. rb_sp_puttlsbuf (Some p) s = Some (Inr VFalse, t) \<and> tls_inv t \<and> lent t = lent s - {p} \<and>
    (\<forall>q \<in> lent s - {p}. heap t q = heap s q) \<and>
    (if rb_sp_key s = Some p then map_option buf_type (heap t p) = Some RB_SP_TLS_READY else heap t p = None)"
proof -
  obtain t where t: "rb_sp_puttlsbuf (Some p) s = Some (Inr VFalse, t)" "takes_back p s t"
    using tls.put_takes_back [OF assms] by blast
  from assms(2) obtain b where b: "heap s p = Some b" "buf_type b \<noteq> RB_SP_TLS_READY" by (auto simp: lent_def)
  have "rb_sp_key s = Some p \<longleftrightarrow> buf_type b = RB_SP_TLS_INUSE"
    using tls_inv_key [OF assms(1), of p] tls_inv_not_malloced [OF assms(1) b(1)] b by (cases "buf_type b") auto
  with t(1) b have "if rb_sp_key s = Some p then map_option buf_type (heap t p) = Some RB_SP_TLS_READY
      else heap t p = None"
    by (cases "buf_type b") (auto simp: rb_sp_puttlsbuf_def run_simps deref_def c_assert_def
        set_buf_type_def store_def free_buf_def split: if_splits)
  with t show ?thesis by (auto simp: takes_back_def)
qed

theorem puttlsbuf_releases_witness:
  "\<exists>t. rb_sp_puttlsbuf (Some 0) ((sample_st 0)\<lparr>heap := [0 \<mapsto> \<lparr>capa = 100, buf_type = RB_SP_TLS_INUSE, ptr = P_uninit\<rparr>],
      brk := 1, rb_sp_key := Some 0\<rparr>) = Some (Inr VFalse, t) \<and> lent t = {}"
proof -
  let ?s = "(sample_st 0)\<lparr>heap := [0 \<mapsto> \<lparr>capa = 100, buf_type = RB_SP_TLS_INUSE, ptr = P_uninit\<rparr>],
      brk := 1, rb_sp_key := Some 0\<rparr>"
  have "tls_inv ?s" by (simp add: tls_inv_def)
  moreover have "lent ?s = {0}" by (auto simp: lent_def)
  ultimately show ?thesis using puttlsbuf_releases [of ?s 0] by auto
qed

text \<open>C33: a defect of \<open>rb_sp_gettlsbuf\<close>: when the thread's buffer is too small it is freed before
  the larger one is allocated, and if that allocation fails the exception leaves the pthread key
  pointing at the freed buffer.  The next call that needs a scratch buffer reads freed memory.\<close>

theorem gettlsbuf_stale_key_after_failure:
  assumes "rb_sp_key s = Some p" and "heap s p = Some b" and "buf_type b = RB_SP_TLS_READY"
    and "ucast (capa b) < n" and "UINT32_MAX \<le> n \<or> (\<forall>a m e. fst (vm_posix_memalign V a m e))"
  shows "\<exists>t. rb_sp_gettlsbuf V line n s = Some (Inl (Raise NoMemoryError), t) \<and>
    rb_sp_key t = Some p \<and> heap t p = None \<and>
    (\<forall>W m. rb_sp_gettlsbuf W line m t = Some (Inl (UB ''dereference of a dead buffer''), t))"
  using assms
  by (auto simp: rb_sp_gettlsbuf_def replace_tlsbuf_def alloc_tlsbuf_def run_simps deref_def c_assert_def
      free_buf_def Let_def rb_raise_def envE_def)

theorem gettlsbuf_stale_key_after_failure_witness:
  "\<exists>t. rb_sp_gettlsbuf sample_vm 64 (2 ^ 33) ((sample_st 0)\<lparr>heap := [0 \<mapsto> \<lparr>capa = 100,
      buf_type = RB_SP_TLS_READY, ptr = P_uninit\<rparr>], brk := 1, rb_sp_key := Some 0\<rparr>) =
      Some (Inl (Raise NoMemoryError), t) \<and>
    rb_sp_gettlsbuf sample_vm 64 100 t = Some (Inl (UB ''dereference of a dead buffer''), t)"
proof -
  let ?s = "(sample_st 0)\<lparr>heap := [0 \<mapsto> \<lparr>capa = 100, buf_type = RB_SP_TLS_READY, ptr = P_uninit\<rparr>],
      brk := 1, rb_sp_key := Some 0\<rparr>"
  have "\<exists>t. rb_sp_gettlsbuf sample_vm 64 (2 ^ 33) ?s = Some (Inl (Raise NoMemoryError), t) \<and>
      rb_sp_key t = Some 0 \<and> heap t 0 = None \<and>
      (\<forall>W m. rb_sp_gettlsbuf W 64 m t = Some (Inl (UB ''dereference of a dead buffer''), t))"
    by (rule gettlsbuf_stale_key_after_failure [where b = "\<lparr>capa = 100, buf_type = RB_SP_TLS_READY, ptr = P_uninit\<rparr>"])
      (simp_all add: UINT32_MAX_def)
  then show ?thesis by blast
qed

text \<open>The cache line size used to align the buffers is the system's if that lies between 1 and
  128, and 128 otherwise, so it is never 0 and never above 128.\<close>

theorem l1_cache_line_size_range:
  "0 < unat (l1_cache_line_size_detect r) \<and> unat (l1_cache_line_size_detect r) \<le> 128 \<and>
   (\<forall>n. r = Some n \<and> 0 < n \<and> n \<le> 128 \<longrightarrow> uint (l1_cache_line_size_detect r) = n)"
proof (cases r)
  case None
  then show ?thesis by (simp add: l1_cache_line_size_detect_def L1_CACHE_LINE_MAX_def)
next
  case (Some n)
  show ?thesis
  proof (cases "0 < n \<and> n \<le> 128")
    case True
    then have u: "uint (word_of_int n :: 64 word) = n" by (intro uint_of_int_small) auto
    then have "unat (word_of_int n :: 64 word) = nat n" by (simp add: unat_eq_nat_uint)
    with u True Some show ?thesis
      by (simp add: l1_cache_line_size_detect_def L1_CACHE_LINE_MAX_def nat_le_iff)
  next
    case False
    with Some show ?thesis by (auto simp: l1_cache_line_size_detect_def L1_CACHE_LINE_MAX_def)
  qed
qed

theorem l1_cache_line_size_range_witness:
  "uint (l1_cache_line_size_detect (Some 64)) = 64"
  using l1_cache_line_size_range [of "Some 64"] by simp

end
