(* ===== verification/SP_Util.thy ===== *)
theory SP_Util
  imports SP_Runtime SP_Sample
begin

text \<open>
  util.c and the macros of sleepy_penguin.h: flag arguments, file numbers of IO objects,
  non-blocking mode, waiting for readiness, and the decision to collect garbage when the process
  is out of descriptors.
\<close>

section \<open>Flags\<close>

definition klass_for :: "'k vm \<Rightarrow> val \<Rightarrow> klass" where
  "klass_for V v = (case v of VClass k \<Rightarrow> k | _ \<Rightarrow> vm_class_of V v)"

definition rb_const_get :: "'k vm \<Rightarrow> klass \<Rightarrow> val \<Rightarrow> fail + val" where
  "rb_const_get V k name = (case name of
       VSym n \<Rightarrow> (case vm_const_get V k n of None \<Rightarrow> Inl (Raise (NameError n)) | Some c \<Rightarrow> Inr c)
     | _ \<Rightarrow> Inl (Raise (TypeError ''not a symbol'')))"

definition Check_Type_Symbol :: "val \<Rightarrow> fail + unit" where
  "Check_Type_Symbol v = (if TYPE_OF v = T_SYMBOL then Inr ()
     else Inl (Raise (TypeError ''wrong argument type (expected Symbol)'')))"

definition NUM2INT_word :: "val \<Rightarrow> fail + 32 word" where
  "NUM2INT_word v = map_sum id of_int (NUM2INT v)"

text \<open>One element of a flags array, read as a C int or as a C unsigned.\<close>

definition ary_flag :: "(val \<Rightarrow> fail + 32 word) \<Rightarrow> 'k vm \<Rightarrow> klass \<Rightarrow> val \<Rightarrow> fail + 32 word" where
  "ary_flag num V k tmp = (case Check_Type_Symbol tmp of
       Inl e \<Rightarrow> Inl e
     | Inr _ \<Rightarrow> (case rb_const_get V k tmp of Inl e \<Rightarrow> Inl e | Inr c \<Rightarrow> num c))"

fun flags_ary :: "'k vm \<Rightarrow> klass \<Rightarrow> val list \<Rightarrow> 32 word \<Rightarrow> fail + 32 word" where
  "flags_ary V k [] rv = Inr rv"
| "flags_ary V k (tmp # rest) rv = (case ary_flag NUM2INT_word V k tmp of
       Inl e \<Rightarrow> Inl e | Inr w \<Rightarrow> flags_ary V k rest (rv OR w))"

fun uflags_ary :: "'k vm \<Rightarrow> klass \<Rightarrow> val list \<Rightarrow> 32 word \<Rightarrow> fail + 32 word" where
  "uflags_ary V k [] rv = Inr rv"
| "uflags_ary V k (tmp # rest) rv = (case ary_flag NUM2UINT V k tmp of
       Inl e \<Rightarrow> Inl e | Inr w \<Rightarrow> uflags_ary V k rest (rv OR w))"

text \<open>\<open>FIX2INT\<close> and \<open>FIX2UINT\<close> check the range like \<open>NUM2INT\<close> and \<open>NUM2UINT\<close>.\<close>

definition rb_sp_get_flags :: "'k vm \<Rightarrow> val \<Rightarrow> val \<Rightarrow> 32 word \<Rightarrow> fail + 32 word" where
  "rb_sp_get_flags V klass flags default_flags = (case TYPE_OF flags of
       T_NIL \<Rightarrow> Inr default_flags
     | T_FIXNUM \<Rightarrow> NUM2INT_word flags
     | T_BIGNUM \<Rightarrow> NUM2INT_word flags
     | T_SYMBOL \<Rightarrow> (case rb_const_get V (klass_for V klass) flags of
                      Inl e \<Rightarrow> Inl e | Inr c \<Rightarrow> NUM2INT_word c)
     | T_ARRAY \<Rightarrow> (case flags of VArr xs \<Rightarrow> flags_ary V (klass_for V klass) xs 0
                             | _ \<Rightarrow> Inl (Raise (TypeError ''invalid flags'')))
     | _ \<Rightarrow> Inl (Raise (TypeError ''invalid flags'')))"

definition rb_sp_get_uflags :: "'k vm \<Rightarrow> val \<Rightarrow> val \<Rightarrow> fail + 32 word" where
  "rb_sp_get_uflags V klass flags = (case TYPE_OF flags of
       T_NIL \<Rightarrow> Inr 0
     | T_FIXNUM \<Rightarrow> NUM2UINT flags
     | T_BIGNUM \<Rightarrow> NUM2UINT flags
     | T_SYMBOL \<Rightarrow> (case rb_const_get V (klass_for V klass) flags of
                      Inl e \<Rightarrow> Inl e | Inr c \<Rightarrow> NUM2UINT c)
     | T_ARRAY \<Rightarrow> (case flags of VArr xs \<Rightarrow> uflags_ary V (klass_for V klass) xs 0
                             | _ \<Rightarrow> Inl (Raise (TypeError ''invalid flags'')))
     | _ \<Rightarrow> Inl (Raise (TypeError ''invalid flags'')))"

section \<open>IO objects\<close>

definition my_io_get_io :: "'k vm \<Rightarrow> val \<Rightarrow> ('k, nat) M" where
  "my_io_get_io V io = (case io of VFile i \<Rightarrow> ret i | _ \<Rightarrow> envX (vm_to_io V io))"

definition GetOpenFile :: "nat \<Rightarrow> ('k, int) M" where
  "GetOpenFile i = bindE (readS (\<lambda>s. ios (env s) i)) (\<lambda>x. case x of
       IO_open fd \<Rightarrow> ret fd
     | IO_closed \<Rightarrow> rb_raise (IOError ''closed stream'')
     | IO_uninit \<Rightarrow> rb_raise (IOError ''uninitialized stream''))"

definition rb_sp_fileno :: "'k vm \<Rightarrow> val \<Rightarrow> ('k, int) M" where
  "rb_sp_fileno V io = (if TYPE_OF io = T_FIXNUM then liftE (NUM2INT io)
     else bindE (my_io_get_io V io) GetOpenFile)"

definition fixint_closed_p :: "'k vm \<Rightarrow> val \<Rightarrow> ('k, bool) M" where
  "fixint_closed_p V io = bindE (liftE (NUM2INT io)) (\<lambda>fd.
     bindE (syscall (vm_fcntl_getfd V fd)) (\<lambda>r. bindE get_errno (\<lambda>e.
     ret (r = None \<and> e = EBADF))))"

text \<open>
  \<open>RFILE(io)->fptr->fd < 0\<close>: a closed IO has a negative descriptor, an IO that was never
  initialised has no \<open>fptr\<close> to read.
\<close>

definition my_rb_io_closed :: "nat \<Rightarrow> ('k, bool) M" where
  "my_rb_io_closed i = bindE (readS (\<lambda>s. ios (env s) i)) (\<lambda>x. case x of
       IO_open fd \<Rightarrow> ret (fd < 0)
     | IO_closed \<Rightarrow> ret True
     | IO_uninit \<Rightarrow> throw (UB ''null fptr''))"

definition rb_sp_io_closed :: "'k vm \<Rightarrow> val \<Rightarrow> ('k, bool) M" where
  "rb_sp_io_closed V io = (case TYPE_OF io of
       T_FIXNUM \<Rightarrow> fixint_closed_p V io
     | _ \<Rightarrow> bindE (my_io_get_io V io) my_rb_io_closed)"

definition O_NONBLOCK :: "32 word" where "O_NONBLOCK = 0x800"

definition rb_sp_set_nonblock :: "'k vm \<Rightarrow> int \<Rightarrow> ('k, unit) M" where
  "rb_sp_set_nonblock V fd = bindE (syscall (vm_fcntl_getfl V fd)) (\<lambda>r. case r of
       None \<Rightarrow> rb_sys_fail ''fcntl(F_GETFL)''
     | Some flags \<Rightarrow>
         if flags AND O_NONBLOCK = O_NONBLOCK then ret ()
         else bindE (syscall (vm_fcntl_setfl V fd (flags OR O_NONBLOCK))) (\<lambda>r. case r of
                None \<Rightarrow> rb_sys_fail ''fcntl(F_SETFL)'' | Some _ \<Rightarrow> ret ()))"

section \<open>Waiting and running without the VM lock\<close>

text \<open>The result and the descriptor stored through the pointer argument.\<close>

definition rb_sp_wait :: "'k vm \<Rightarrow> (int \<Rightarrow> ('k, bool) M) \<Rightarrow> val \<Rightarrow> ('k, bool \<times> int) M" where
  "rb_sp_wait V waiter obj =
     bindE (rb_sp_fileno V obj) (\<lambda>fd0.
     bindE (waiter fd0) (\<lambda>rc.
     bindE (rb_sp_fileno V obj) (\<lambda>fd.
     ret (rc, fd))))"

abbreviation rb_io_wait_readable :: "'k vm \<Rightarrow> int \<Rightarrow> ('k, bool) M" where
  "rb_io_wait_readable V fd \<equiv> envX (vm_io_wait_readable V fd)"

abbreviation rb_io_wait_writable :: "'k vm \<Rightarrow> int \<Rightarrow> ('k, bool) M" where
  "rb_io_wait_writable V fd \<equiv> envX (vm_io_wait_writable V fd)"

text \<open>
  All versions of the macro run \<open>fn\<close> with the lock released; they differ in how a blocked \<open>fn\<close> is woken.
  The \<open>fd\<close> lets the VM wake it when another thread closes the descriptor: the call then fails with
  EINTR and the interrupt that is served afterwards raises, which is an outcome \<open>vm_check_ints\<close> may
  have in any environment, so the number itself is not needed here.
\<close>

definition rb_sp_fd_region :: "'k vm \<Rightarrow> ('k, 'a) M \<Rightarrow> int \<Rightarrow> ('k, 'a) M" where
  "rb_sp_fd_region V fn fd = without_gvl V fn"

text \<open>\<open>have\<close> is whether Ruby offers \<open>rb_fd_fix_cloexec\<close>.\<close>

definition RB_SP_CLOEXEC :: "bool \<Rightarrow> 32 word \<Rightarrow> 32 word" where
  "RB_SP_CLOEXEC have flag = (if have then flag else 0)"

definition rb_sp_gc_for_fd :: "'k vm \<Rightarrow> errno \<Rightarrow> ('k, bool) M" where
  "rb_sp_gc_for_fd V err = (if err = EMFILE \<or> err = ENFILE \<or> err = ENOMEM
     then bindE (rb_gc V) (\<lambda>_. ret True) else ret False)"

section \<open>Flags arrays are bit unions\<close>

locale flag_union =
  fixes conv :: "val \<Rightarrow> fail + 32 word"
    and collect :: "val list \<Rightarrow> 32 word \<Rightarrow> fail + 32 word"
  assumes collect_Nil: "collect [] rv = Inr rv"
    and collect_Cons: "collect (x # xs) rv =
      (case conv x of Inl e \<Rightarrow> Inl e | Inr w \<Rightarrow> collect xs (rv OR w))"
begin

lemma collect_total: "(\<exists>w. collect xs rv = Inr w) \<longleftrightarrow> (\<forall>x \<in> set xs. \<exists>v. conv x = Inr v)"
  by (induction xs arbitrary: rv) (auto simp: collect_Nil collect_Cons split: sum.splits)

lemma collect_bits:
  "collect xs rv = Inr w \<Longrightarrow> bit w i \<longleftrightarrow> bit rv i \<or> (\<exists>x \<in> set xs. \<exists>v. conv x = Inr v \<and> bit v i)"
  by (induction xs arbitrary: rv) (auto simp: collect_Nil collect_Cons bit_or_iff split: sum.splits)

lemma collect_set:
  assumes "set xs = set ys" and "collect xs rv = Inr w"
  shows "collect ys rv = Inr w"
proof -
  from assms(2) have "\<forall>x \<in> set xs. \<exists>v. conv x = Inr v" by (simp flip: collect_total [of xs rv])
  then have "\<exists>w'. collect ys rv = Inr w'" by (simp add: assms(1) collect_total)
  then obtain w' where w': "collect ys rv = Inr w'" ..
  have "w' = w"
    by (rule bit_word_eqI) (simp add: collect_bits [OF w'] collect_bits [OF assms(2)] assms(1))
  with w' show ?thesis by simp
qed

lemma collect_error:
  "collect xs rv = Inl e \<Longrightarrow> \<exists>x \<in> set xs. conv x = Inl e"
  by (induction xs arbitrary: rv) (auto simp: collect_Nil collect_Cons split: sum.splits)

end

interpretation iflags: flag_union "ary_flag NUM2INT_word V k" "flags_ary V k" for V k
  by unfold_locales simp_all

interpretation uflags: flag_union "ary_flag NUM2UINT V k" "uflags_ary V k" for V k
  by unfold_locales simp_all

section \<open>Frames and safety\<close>

lemma rb_const_get_not_crash: "rb_const_get V k v = Inl f \<Longrightarrow> \<not> crash f"
  by (auto simp: rb_const_get_def split: val.splits option.splits)

lemma NUM2INT_word_not_crash: "NUM2INT_word v = Inl f \<Longrightarrow> \<not> crash f"
  by (auto simp: NUM2INT_word_def NUM2INT_def num_between_def split: sum.splits if_splits)

lemma NUM2UINT_not_crash: "NUM2UINT v = Inl f \<Longrightarrow> \<not> crash f"
  by (auto simp: NUM2UINT_def num_between_def split: sum.splits if_splits)

lemma keeps_my_io_get_io [keeps_intros]: "keeps bufs (my_io_get_io V io)"
  unfolding my_io_get_io_def by (cases io) (auto intro: keeps_intros)

lemma keeps_GetOpenFile [keeps_intros]: "keeps f (GetOpenFile i)"
  by (auto simp: keeps_def GetOpenFile_def run_simps rb_raise_def split: io_state.splits)

lemma keeps_rb_sp_fileno [keeps_intros]: "keeps bufs (rb_sp_fileno V io)"
  unfolding rb_sp_fileno_def by (intro keeps_intros)

lemma keeps_rb_sp_wait [keeps_intros]: "(\<And>fd. keeps bufs (w fd)) \<Longrightarrow> keeps bufs (rb_sp_wait V w obj)"
  unfolding rb_sp_wait_def by (intro keeps_intros)

lemma keeps_rb_sp_set_nonblock [keeps_intros]: "keeps bufs (rb_sp_set_nonblock V fd)"
  unfolding rb_sp_set_nonblock_def by (intro keeps_intros)

lemma keeps_rb_sp_gc_for_fd [keeps_intros]: "keeps bufs (rb_sp_gc_for_fd V e)"
  unfolding rb_sp_gc_for_fd_def by (intro keeps_intros)

lemma keeps_rb_sp_fd_region [keeps_intros]: "keeps bufs m \<Longrightarrow> keeps bufs (rb_sp_fd_region V m fd)"
  unfolding rb_sp_fd_region_def by (rule keeps_without_gvl)

lemma safe_my_io_get_io [safe_intros]: "safe (my_io_get_io V io)"
  unfolding my_io_get_io_def by (cases io) (auto intro: safe_intros)

lemma safe_GetOpenFile [safe_intros]: "safe (GetOpenFile i)"
  by (auto simp: safe_def GetOpenFile_def run_simps rb_raise_def split: io_state.splits)

lemma safe_rb_sp_fileno [safe_intros]: "safe (rb_sp_fileno V io)"
  unfolding rb_sp_fileno_def by (intro safe_intros)

lemma safe_rb_sp_wait [safe_intros]: "(\<And>fd. safe (w fd)) \<Longrightarrow> safe (rb_sp_wait V w obj)"
  unfolding rb_sp_wait_def by (intro safe_intros)

lemma safe_rb_sp_set_nonblock [safe_intros]: "safe (rb_sp_set_nonblock V fd)"
  unfolding rb_sp_set_nonblock_def by (intro safe_intros)

lemma safe_rb_sp_gc_for_fd [safe_intros]: "safe (rb_sp_gc_for_fd V e)"
  unfolding rb_sp_gc_for_fd_def by (intro safe_intros)

lemma safe_rb_sp_fd_region [safe_intros]: "safe m \<Longrightarrow> safe (rb_sp_fd_region V m fd)"
  unfolding rb_sp_fd_region_def by (rule safe_without_gvl)

lemma total_util [total_intros]:
  "total (my_io_get_io V io)" "total (GetOpenFile i)"
  by (auto simp: my_io_get_io_def GetOpenFile_def intro!: total_intros split: val.split io_state.split)

lemma total_rb_sp_fileno [total_intros]: "total (rb_sp_fileno V io)"
  unfolding rb_sp_fileno_def by (intro total_intros)

lemma total_rb_sp_fd_region [total_intros]: "total m \<Longrightarrow> total (rb_sp_fd_region V m fd)"
  unfolding rb_sp_fd_region_def by (rule total_without_gvl)

lemma calm_rb_sp_fileno: "vm_calm \<mu> V \<Longrightarrow> calm \<mu> (rb_sp_fileno V io)"
  unfolding rb_sp_fileno_def my_io_get_io_def GetOpenFile_def
  by (auto intro!: calm_intros calm_envX simp: vm_calm_def split: val.split io_state.split)

lemma rb_sp_fileno_file:
  "rb_sp_fileno V (VFile i) s = Some (case ios (env s) i of
      IO_open fd \<Rightarrow> Inr fd
    | IO_closed \<Rightarrow> Inl (Raise (IOError ''closed stream''))
    | IO_uninit \<Rightarrow> Inl (Raise (IOError ''uninitialized stream'')), s)"
  by (simp add: rb_sp_fileno_def my_io_get_io_def GetOpenFile_def run_simps rb_raise_def
      split: io_state.splits)

section \<open>Creating a descriptor\<close>

text \<open>
  Every constructor asks the kernel for a descriptor and, when the process has run out of
  descriptors or memory, collects garbage and asks once more.  \<open>fd_outcome\<close> says what that
  amounts to: at most two attempts, the second only after a collection.
\<close>

definition fd_exhausted :: "errno \<Rightarrow> bool" where
  "fd_exhausted e \<longleftrightarrow> e = EMFILE \<or> e = ENFILE \<or> e = ENOMEM"

definition fd_outcome ::
  "'k vm \<Rightarrow> ('k env \<Rightarrow> (errno + int) \<times> 'k env) \<Rightarrow> string \<Rightarrow> 'k env \<Rightarrow> (fail + int) \<times> 'k env" where
  "fd_outcome V create msg e0 = (case create e0 of
       (Inr fd, e1) \<Rightarrow> (Inr fd, e1)
     | (Inl er, e1) \<Rightarrow>
         if fd_exhausted er then (case create (vm_gc V (e1\<lparr>errno := er\<rparr>)) of
             (Inr fd, e2) \<Rightarrow> (Inr fd, e2)
           | (Inl er2, e2) \<Rightarrow> (Inl (Raise (SystemCallError er2 msg)), e2\<lparr>errno := er2\<rparr>))
         else (Inl (Raise (SystemCallError er msg)), e1\<lparr>errno := er\<rparr>))"

locale fd_source =
  fixes V :: "'k vm" and create :: "'k env \<Rightarrow> (errno + int) \<times> 'k env" and msg :: string
    and opened :: "('k, int) M"
  assumes opened_eq: "opened = bindE (syscall create) (\<lambda>fd. case fd of
       Some n \<Rightarrow> ret n
     | None \<Rightarrow>
         bindE get_errno (\<lambda>err.
         bindE (rb_sp_gc_for_fd V err) (\<lambda>again.
         bindE (if again then syscall create else ret None) (\<lambda>fd.
         case fd of None \<Rightarrow> rb_sys_fail msg | Some n \<Rightarrow> ret n))))"
begin

lemma opened_outcome:
  "opened s = Some (fst (fd_outcome V create msg (env s)), s\<lparr>env := snd (fd_outcome V create msg (env s))\<rparr>)"
proof -
  obtain r e1 where c: "create (env s) = (r, e1)" by fastforce
  show ?thesis
  proof (cases r)
    case (Inr n)
    with c show ?thesis by (simp add: opened_eq fd_outcome_def run_simps syscall_def envE_def)
  next
    case (Inl er)
    note run = opened_eq fd_outcome_def run_simps syscall_def envE_def set_errno_def get_errno_def
      rb_sp_gc_for_fd_def rb_gc_def rb_sys_fail_def rb_raise_def
    show ?thesis
    proof (cases "fd_exhausted er")
      case False
      with Inl c show ?thesis by (simp add: run fd_exhausted_def)
    next
      case True
      obtain r2 e2 where c2: "create (vm_gc V (e1\<lparr>errno := er\<rparr>)) = (r2, e2)" by fastforce
      from True have "er = EMFILE \<or> er = ENFILE \<or> er = ENOMEM" by (simp add: fd_exhausted_def)
      with Inl c c2 True show ?thesis by (cases r2) (simp_all add: run)
    qed
  qed
qed

lemma opened_first_try:
  "create (env s) = (Inr n, e1) \<Longrightarrow> opened s = Some (Inr n, s\<lparr>env := e1\<rparr>)"
  by (simp add: opened_outcome fd_outcome_def)

lemma keeps_opened: "keeps bufs opened"
  by (simp add: keeps_def opened_outcome)

lemma safe_opened: "safe opened"
  by (auto simp: safe_def opened_outcome fd_outcome_def split: prod.splits sum.splits if_splits)

end

section \<open>Restarting an interrupted wait\<close>

text \<open>
  epoll.c and kqueue.c wait in the same loop: \<open>do { n = wait } while (n < 0 && resume)\<close>.  What can be
  said of it without knowing how the wait and the decision to resume work is proved here.
\<close>

locale restart_loop =
  fixes wait :: "('k, int) M" and resume :: "('k, bool) M" and loop :: "('k, int) M"
  assumes loop_eq: "loop = loopE (\<lambda>_. bindE wait (\<lambda>n.
     if n < 0 then bindE resume (\<lambda>again. ret (if again then Inl () else Inr n)) else ret (Inr n))) ()"
begin

lemma round_cases:
  assumes "bindE wait (\<lambda>n. if n < 0 then bindE resume (\<lambda>again. ret (if again then Inl () else Inr n))
      else ret (Inr n)) s = Some (Inr y, t)"
  obtains (events) n where "wait s = Some (Inr n, t)" and "0 \<le> n" and "y = Inr n"
    | (again) n u where "wait s = Some (Inr n, u)" and "n < 0" and "resume u = Some (Inr True, t)" and "y = Inl ()"
    | (failed) n u where "wait s = Some (Inr n, u)" and "n < 0" and "resume u = Some (Inr False, t)" and "y = Inr n"
proof -
  obtain n u where w: "wait s = Some (Inr n, u)" and
    k: "(if n < 0 then bindE resume (\<lambda>again. ret (if again then Inl () else Inr n)) else ret (Inr n)) u = Some (Inr y, t)"
    using assms by (rule bindE_Inr_cases)
  show thesis
  proof (cases "n < 0")
    case False
    with k w show thesis by (intro events [of n]) (simp_all add: run_simps)
  next
    case True
    with k have "bindE resume (\<lambda>again. ret (if again then Inl () else Inr n)) u = Some (Inr y, t)" by simp
    then obtain b where "resume u = Some (Inr b, t)" and "y = (if b then Inl () else Inr n)"
      by (rule bindE_Inr_cases) (simp add: run_simps)
    with w True show thesis by (cases b) (auto intro: again failed)
  qed
qed

lemma loop_resumed:
  assumes "wait s = Some (Inr n, u)" and "n < 0" and "resume u = Some (Inr True, t)"
  shows "loop s = loop t"
  unfolding loop_eq by (rule loopE_again) (use assms in \<open>simp add: run_simps\<close>)

lemma loop_given_up:
  assumes "wait s = Some (Inr n, u)" and "n < 0" and "resume u = Some (Inr False, t)"
  shows "loop s = Some (Inr n, t)"
  unfolding loop_eq by (rule loopE_stop) (use assms in \<open>simp add: run_simps\<close>)

lemma loop_negative:
  assumes "loop s = Some (Inr n, t)" and "n < 0"
  shows "\<exists>v u. wait v = Some (Inr n, u) \<and> resume u = Some (Inr False, t)"
proof -
  let ?Q = "\<lambda>r t. case r of Inl f \<Rightarrow> True | Inr n \<Rightarrow> n < 0 \<longrightarrow>
      (\<exists>v u. wait v = Some (Inr n, u) \<and> resume u = Some (Inr False, t))"
  have "?Q (Inr n :: fail + int) t"
    using assms(1) unfolding loop_eq
  proof (rule loopE_rule [where I = "\<lambda>_ _. True" and Q = ?Q])
    fix x :: unit and s a t
    assume "bindE wait (\<lambda>n. if n < 0 then bindE resume (\<lambda>again. ret (if again then Inl () else Inr n))
        else ret (Inr n)) s = Some (Inr (Inr a), t)"
    then show "?Q (Inr a :: fail + int) t" by (cases rule: round_cases) auto
  qed simp_all
  with assms(2) show ?thesis by simp
qed

lemma loop_returns:
  fixes m :: "'k st \<Rightarrow> nat"
  assumes "total wait" and "total resume"
    and "\<And>s n u t. wait s = Some (Inr n, u) \<Longrightarrow> n < 0 \<Longrightarrow> resume u = Some (Inr True, t) \<Longrightarrow> m t < m s"
  shows "\<exists>r t. loop s = Some (r, t)"
  unfolding loop_eq
proof (rule loopE_terminates [where I = "\<lambda>_ _. True" and m = "\<lambda>_. m"])
  fix x :: unit and s x' t
  assume "bindE wait (\<lambda>n. if n < 0 then bindE resume (\<lambda>again. ret (if again then Inl () else Inr n))
      else ret (Inr n)) s = Some (Inr (Inl x'), t)"
  then show "True \<and> m t < m s" by (cases rule: round_cases) (auto intro: assms(3))
next
  fix x :: unit and s
  have "total (bindE wait (\<lambda>n. if n < 0 then bindE resume (\<lambda>again. ret (if again then Inl () else Inr n))
      else ret (Inr n)))" by (intro total_intros assms)
  then show "bindE wait (\<lambda>n. if n < 0 then bindE resume (\<lambda>again. ret (if again then Inl () else Inr n))
      else ret (Inr n)) s \<noteq> None" by (simp add: total_def)
qed simp

end

section \<open>Properties\<close>

lemma ary_flag_Inr:
  "ary_flag num V k x = Inr v \<longleftrightarrow> (\<exists>n c. x = VSym n \<and> vm_const_get V k n = Some c \<and> num c = Inr v)"
  by (cases x) (auto simp: ary_flag_def Check_Type_Symbol_def rb_const_get_def split: option.splits)

text \<open>C29: flags given as an array of symbols are the bitwise union of the constants of these names in the class,
  so the order of the symbols and repetitions do not matter.\<close>

theorem uflags_array_union:
  assumes "rb_sp_get_uflags V k (VArr xs) = Inr w"
  shows "(\<forall>i. bit w i \<longleftrightarrow> (\<exists>n c v. VSym n \<in> set xs \<and> vm_const_get V (klass_for V k) n = Some c \<and>
      NUM2UINT c = Inr v \<and> bit v i)) \<and>
    (\<forall>ys. set ys = set xs \<longrightarrow> rb_sp_get_uflags V k (VArr ys) = Inr w)"
proof -
  have w: "uflags_ary V (klass_for V k) xs 0 = Inr w" using assms by (simp add: rb_sp_get_uflags_def)
  have "bit w i \<longleftrightarrow> (\<exists>n c v. VSym n \<in> set xs \<and> vm_const_get V (klass_for V k) n = Some c \<and> NUM2UINT c = Inr v \<and> bit v i)" for i
    using uflags.collect_bits [OF w, of i] by (auto simp: ary_flag_Inr)
  moreover have "rb_sp_get_uflags V k (VArr ys) = Inr w" if "set ys = set xs" for ys
    using uflags.collect_set [OF _ w] that by (simp add: rb_sp_get_uflags_def)
  ultimately show ?thesis by blast
qed

theorem uflags_array_union_witness:
  "rb_sp_get_uflags sample_vm (VClass cEpoll) (VArr [VSym ''OUT'', VSym ''IN'', VSym ''OUT'']) = Inr 5"
proof -
  have "rb_sp_get_uflags sample_vm (VClass cEpoll) (VArr [VSym ''IN'', VSym ''OUT'']) = Inr 5"
    by (simp add: rb_sp_get_uflags_def klass_for_def ary_flag_def Check_Type_Symbol_def rb_const_get_def NUM2UINT_def
        num_between_def sample_vm_def)
  note conjunct2 [OF uflags_array_union [OF this], rule_format, of "[VSym ''OUT'', VSym ''IN'', VSym ''OUT'']"]
  then show ?thesis by (simp add: insert_commute)
qed

end
