(* ===== verification/SP_Define.thy ===== *)
theory SP_Define
  imports SP_Util
begin

text \<open>
  What the \<open>sleepy_penguin_init_*\<close> functions do to the Ruby class hierarchy, as the list of
  definitions they make, in order.  The values come from the system's headers, a parameter:
  \<^term>\<open>None\<close> for a macro that is not defined, which the \<open>#ifdef\<close>s of the source test.
\<close>

datatype rb_def =
  DefModule klass
| DefClass klass
| DefConst klass string val
| DefMethod klass string int \<comment> \<open>name and arity\<close>
| DefSingleton klass string int
| DefAlias klass string string
| UndefAlloc klass

type_synonym hdr = "string \<Rightarrow> int option"

definition ifdef :: "hdr \<Rightarrow> string \<Rightarrow> (int \<Rightarrow> rb_def) \<Rightarrow> rb_def list" where
  "ifdef H macro d = (case H macro of None \<Rightarrow> [] | Some n \<Rightarrow> [d n])"

text \<open>A macro that the source uses without a test; without it the file does not compile.\<close>

definition macro :: "hdr \<Rightarrow> string \<Rightarrow> int" where
  "macro H name = the (H name)"

text \<open>\<open>UINT2NUM\<close> of a macro: its value as a C unsigned.\<close>

definition as_uint :: "int \<Rightarrow> val" where
  "as_uint n = UINT2NUM (of_int n)"

text \<open>The value a class gives to a constant name: the last definition made.\<close>

fun defined_const :: "rb_def list \<Rightarrow> klass \<Rightarrow> string \<Rightarrow> val option" where
  "defined_const [] k name = None"
| "defined_const (d # ds) k name = (case defined_const ds k name of
       Some v \<Rightarrow> Some v
     | None \<Rightarrow> (case d of DefConst k' n v \<Rightarrow> if k' = k \<and> n = name then Some v else None | _ \<Rightarrow> None))"

fun const_names :: "rb_def list \<Rightarrow> (klass \<times> string) list" where
  "const_names [] = []"
| "const_names (DefConst k n v # ds) = (k, n) # const_names ds"
| "const_names (d # ds) = const_names ds"

lemma defined_const_append:
  "defined_const (xs @ ys) k n = (case defined_const ys k n of Some v \<Rightarrow> Some v | None \<Rightarrow> defined_const xs k n)"
  by (induction xs) (auto split: option.splits)

lemma const_names_append [simp]: "const_names (xs @ ys) = const_names xs @ const_names ys"
proof (induction xs)
  case (Cons d ds)
  then show ?case by (cases d) simp_all
qed simp

lemma defined_const_in: "defined_const ds k n = Some v \<Longrightarrow> DefConst k n v \<in> set ds"
  by (induction ds) (auto split: option.splits rb_def.splits if_splits)

lemma in_const_names: "DefConst k n v \<in> set ds \<Longrightarrow> (k, n) \<in> set (const_names ds)"
proof (induction ds)
  case (Cons d ds)
  then show ?case by (cases d) auto
qed simp

lemma defined_const_none: "(k, n) \<notin> set (const_names ds) \<Longrightarrow> defined_const ds k n = None"
  using defined_const_in in_const_names by (metis option.exhaust)

text \<open>If no name is defined twice, a constant has the value of its one definition.\<close>

lemma defined_const_distinct:
  "distinct (const_names ds) \<Longrightarrow> DefConst k n v \<in> set ds \<Longrightarrow> defined_const ds k n = Some v"
proof (induction ds)
  case (Cons d ds)
  show ?case
  proof (cases "DefConst k n v \<in> set ds")
    case True
    have "distinct (const_names ds)" using Cons.prems(1) by (cases d) simp_all
    with Cons.IH True show ?thesis by simp
  next
    case False
    with Cons.prems have d: "d = DefConst k n v" by simp
    with Cons.prems(1) have "(k, n) \<notin> set (const_names ds)" by simp
    from defined_const_none [OF this] d show ?thesis by simp
  qed
qed simp

lemma const_names_ifdef [simp]:
  "const_names (ifdef H m (\<lambda>n. DefConst k x (f n))) = (if H m = None then [] else [(k, x)])"
  by (simp add: ifdef_def split: option.split)

lemma in_ifdef [simp]: "d \<in> set (ifdef H m f) \<longleftrightarrow> (\<exists>n. H m = Some n \<and> d = f n)"
  by (cases "H m") (simp_all add: ifdef_def)

end
