(* ===== verification/SP_Epoll.thy ===== *)
theory SP_Epoll
  imports SP_Tlsbuf SP_Util SP_Sample SP_Define "HOL-Library.Signed_Division"
begin

text \<open>
  epoll.c, the low-level \<open>SleepyPenguin::Epoll::IO\<close> class, and missing_epoll.h.  The
  \<open>struct ep_per_thread\<close> of a wait lives in a borrowed scratch buffer, as in the source: the kernel
  writes the events there and the block is called on what is read back from there, so a buffer
  shared by mistake between nested waits would show.
\<close>

section \<open>System calls\<close>

record 'k epoll_sys =
  sys_epoll_create1 :: "32 word \<Rightarrow> 'k env \<Rightarrow> (errno + int) \<times> 'k env"
  sys_epoll_create :: "int \<Rightarrow> 'k env \<Rightarrow> (errno + int) \<times> 'k env"
  sys_epoll_ctl :: "int \<Rightarrow> int \<Rightarrow> int \<Rightarrow> epoll_event \<Rightarrow> 'k env \<Rightarrow> (errno + unit) \<times> 'k env"
  sys_epoll_wait :: "int \<Rightarrow> int \<Rightarrow> int \<Rightarrow> 'k env \<Rightarrow> (errno + epoll_event list) \<times> 'k env"

section \<open>missing\_epoll.h\<close>

definition EPOLL_CLOEXEC :: "32 word" where "EPOLL_CLOEXEC = 0x80000"

definition FD_CLOEXEC :: "32 word" where "FD_CLOEXEC = 1"

definition my_epoll_create1 :: "'k vm \<Rightarrow> 'k epoll_sys \<Rightarrow> 32 word \<Rightarrow> ('k, int option) M" where
  "my_epoll_create1 V E flags =
     bindE (syscall (sys_epoll_create E 1024)) (\<lambda>r. case r of
       None \<Rightarrow> ret None
     | Some fd \<Rightarrow>
         if flags = 0 then ret (Some fd)
         else if flags AND EPOLL_CLOEXEC \<noteq> 0 then
           bindE (syscall (vm_fcntl_setfd V fd FD_CLOEXEC)) (\<lambda>r. case r of
               None \<Rightarrow> bindE get_errno (\<lambda>saved.
                        bindE (envE (\<lambda>e. ((), vm_close V fd e))) (\<lambda>_.
                        bindE (set_errno saved) (\<lambda>_. ret None)))
             | Some _ \<Rightarrow> ret (Some fd))
         else ret (Some fd))"

section \<open>Clock and event data\<close>

definition timespec_ms :: "timespec \<Rightarrow> 64 word" where
  "timespec_ms now = of_int (tv_sec now * 1000 + (tv_nsec now + 500000) sdiv 1000000)"

definition now_ms :: "'k vm \<Rightarrow> ('k, 64 word) M" where
  "now_ms V = bindE (clock_gettime V) (\<lambda>now. ret (timespec_ms now))"

definition pack_event_data :: "epoll_event \<Rightarrow> val \<Rightarrow> epoll_event" where
  "pack_event_data event obj = event\<lparr>ee_data := obj\<rparr>"

definition unpack_event_data :: "epoll_event \<Rightarrow> val" where
  "unpack_event_data event = ee_data event"

section \<open>The per-thread structure\<close>

definition sizeof_ep_per_thread :: "64 word" where "sizeof_ep_per_thread = 24"
definition sizeof_epoll_event :: "64 word" where "sizeof_epoll_event = 12"

definition get_ept :: "nat \<Rightarrow> ('k, ep_per_thread) M" where
  "get_ept p = bindE (deref p) (\<lambda>b. case ptr b of
       P_ept e \<Rightarrow> ret e | _ \<Rightarrow> throw (UB ''buffer is not an ep_per_thread''))"

definition put_ept :: "nat \<Rightarrow> ep_per_thread \<Rightarrow> ('k, unit) M" where
  "put_ept p e = set_ptr p (P_ept e)"

definition upd_ept :: "nat \<Rightarrow> (ep_per_thread \<Rightarrow> ep_per_thread) \<Rightarrow> ('k, unit) M" where
  "upd_ept p f = bindE (get_ept p) (\<lambda>e. put_ept p (f e))"

definition ep_fd_check :: "'k vm \<Rightarrow> nat \<Rightarrow> ('k, unit) M" where
  "ep_fd_check V p =
     bindE get_errno (\<lambda>save_errno.
     bindE (get_ept p) (\<lambda>ept.
     bindE (rb_sp_fileno V (ep_io ept)) (\<lambda>fd.
     bindE (upd_ept p (ep_fd_update (\<lambda>_. fd))) (\<lambda>_.
     set_errno save_errno))))"

definition ept_size :: "int \<Rightarrow> 64 word" where
  "ept_size maxevents = sizeof_ep_per_thread + sizeof_epoll_event * of_int maxevents"

text \<open>The fields that \<open>ept_get\<close> does not set hold whatever was in the buffer; zeros here.\<close>

definition new_ept :: "int \<Rightarrow> ep_per_thread" where
  "new_ept maxevents = \<lparr>ep_io = VNil, ep_fd = 0, ep_timeout = 0, ep_maxevents = maxevents,
     ep_capa = maxevents, ep_events = []\<rparr>"

definition ept_get :: "'k vm \<Rightarrow> 64 word \<Rightarrow> int \<Rightarrow> ('k, nat) M" where
  "ept_get V line maxevents =
     (if maxevents \<le> 0 then
        bindE (set_errno EINVAL) (\<lambda>_. rb_sys_fail ''epoll_wait maxevents <= 0'')
      else
        bindE (rb_sp_gettlsbuf V line (ept_size maxevents)) (\<lambda>r.
        bindE (put_ept (fst r) (new_ept maxevents)) (\<lambda>_.
        ret (fst r))))"

section \<open>Creation and control\<close>

definition epoll_open :: "'k vm \<Rightarrow> 'k epoll_sys \<Rightarrow> 32 word \<Rightarrow> ('k, int) M" where
  "epoll_open V E flags =
     bindE (syscall (sys_epoll_create1 E flags)) (\<lambda>fd. case fd of
         Some n \<Rightarrow> ret n
       | None \<Rightarrow>
           bindE get_errno (\<lambda>err.
           bindE (rb_sp_gc_for_fd V err) (\<lambda>again.
           bindE (if again then syscall (sys_epoll_create1 E flags) else ret None) (\<lambda>fd.
           case fd of None \<Rightarrow> rb_sys_fail ''epoll_create1'' | Some n \<Rightarrow> ret n))))"

definition s_new_epoll :: "'k vm \<Rightarrow> 'k epoll_sys \<Rightarrow> bool \<Rightarrow> val \<Rightarrow> ('k, val) M" where
  "s_new_epoll V E have_cloexec vflags =
     bindE (liftE (rb_sp_get_flags V (VClass cEpoll) vflags (RB_SP_CLOEXEC have_cloexec EPOLL_CLOEXEC))) (\<lambda>flags.
     bindE (epoll_open V E flags) (\<lambda>fd.
     rb_call_super_fd V fd))"

definition epctl :: "'k vm \<Rightarrow> 'k epoll_sys \<Rightarrow> val \<Rightarrow> val \<Rightarrow> val \<Rightarrow> val \<Rightarrow> ('k, val) M" where
  "epctl V E self vop io events =
     bindE (rb_sp_fileno V self) (\<lambda>epfd.
     bindE (rb_sp_fileno V io) (\<lambda>fd.
     bindE (liftE (NUM2INT vop)) (\<lambda>op.
     bindE (liftE (NUM2UINT events)) (\<lambda>ev.
     let event = pack_event_data \<lparr>ee_events = ev, ee_data = VNil\<rparr> io in
     bindE (syscall (sys_epoll_ctl E epfd op fd event)) (\<lambda>rv. case rv of
         None \<Rightarrow> rb_sys_fail ''epoll_ctl''
       | Some _ \<Rightarrow> ret VNil)))))"

section \<open>Waiting\<close>

text \<open>
  The kernel stores the events behind the structure's header.  Storing more than the buffer
  holds is undefined behaviour.
\<close>

definition write_events :: "nat \<Rightarrow> epoll_event list \<Rightarrow> ('k, unit) M" where
  "write_events p evs = bindE (deref p) (\<lambda>b.
     if unat sizeof_ep_per_thread + unat sizeof_epoll_event * length evs \<le> unat (capa b)
     then upd_ept p (ep_events_update (\<lambda>_. evs))
     else throw (UB ''epoll_wait wrote past the buffer''))"

definition nogvl_wait :: "'k epoll_sys \<Rightarrow> nat \<Rightarrow> ('k, int) M" where
  "nogvl_wait E p = bindE (get_ept p) (\<lambda>ept.
     bindE (syscall (sys_epoll_wait E (ep_fd ept) (ep_maxevents ept) (ep_timeout ept))) (\<lambda>r. case r of
         None \<Rightarrow> ret (-1)
       | Some evs \<Rightarrow> bindE (write_events p evs) (\<lambda>_. ret (int (length evs)))))"

definition ep_args :: "epoll_event \<Rightarrow> val list" where
  "ep_args ev = [UINT2NUM (ee_events ev), unpack_event_data ev]"

text \<open>\<open>k\<close> events still to go, \<open>i\<close> the index the pointer \<open>epoll_event\<close> has reached.\<close>

primrec ep_yield :: "'k blk \<Rightarrow> nat \<Rightarrow> nat \<Rightarrow> nat \<Rightarrow> ('k, unit) M" where
  "ep_yield B p 0 i = ret ()"
| "ep_yield B p (Suc k) i = bindE (get_ept p) (\<lambda>ept.
     if i < length (ep_events ept)
     then bindE (B (ep_args (ep_events ept ! i))) (\<lambda>_. ep_yield B p k (Suc i))
     else throw (UB ''event never written''))"

definition epwait_result :: "'k blk \<Rightarrow> nat \<Rightarrow> int \<Rightarrow> ('k, val) M" where
  "epwait_result B p n =
     bindE (if n < 0 then bindE get_errno (\<lambda>e. if e = EINTR then ret 0 else rb_sys_fail ''epoll_wait'')
            else ret n) (\<lambda>n.
     bindE (ep_yield B p (nat n) 0) (\<lambda>_.
     ret (INT2NUM n)))"

definition remaining_ms :: "64 word \<Rightarrow> 64 word \<Rightarrow> int" where
  "remaining_ms expire_at now = (if now > expire_at then 0 else sint (ucast (expire_at - now) :: 32 word))"

definition epoll_resume_p :: "'k vm \<Rightarrow> 64 word \<Rightarrow> nat \<Rightarrow> ('k, bool) M" where
  "epoll_resume_p V expire_at p =
     bindE (ep_fd_check V p) (\<lambda>_.
     bindE get_errno (\<lambda>e.
     if e \<noteq> EINTR then ret False
     else bindE (get_ept p) (\<lambda>ept.
       if ep_timeout ept < 0 then ret True
       else bindE (now_ms V) (\<lambda>now.
            bindE (upd_ept p (ep_timeout_update (\<lambda>_. remaining_ms expire_at now))) (\<lambda>_.
            ret True)))))"

definition epwait_loop :: "'k vm \<Rightarrow> 'k epoll_sys \<Rightarrow> 64 word \<Rightarrow> nat \<Rightarrow> ('k, int) M" where
  "epwait_loop V E expire_at p = loopE (\<lambda>_.
     bindE (get_ept p) (\<lambda>ept.
     bindE (rb_sp_fd_region V (nogvl_wait E p) (ep_fd ept)) (\<lambda>n.
     if n < 0 then bindE (epoll_resume_p V expire_at p) (\<lambda>again. ret (if again then Inl () else Inr n))
     else ret (Inr n)))) ()"

definition real_epwait :: "'k vm \<Rightarrow> 'k epoll_sys \<Rightarrow> 'k blk \<Rightarrow> nat \<Rightarrow> ('k, val) M" where
  "real_epwait V E B p =
     bindE (get_ept p) (\<lambda>ept.
     bindE (if ep_timeout ept > 0 then bindE (now_ms V) (\<lambda>now. ret (now + of_int (ep_timeout ept)))
            else ret 0) (\<lambda>expire_at.
     bindE (rb_sp_fileno V (ep_io ept)) (\<lambda>fd.
     bindE (upd_ept p (ep_fd_update (\<lambda>_. fd))) (\<lambda>_.
     bindE (epwait_loop V E expire_at p) (\<lambda>n.
     epwait_result B p n)))))"

definition epwait :: "'k vm \<Rightarrow> 'k epoll_sys \<Rightarrow> 64 word \<Rightarrow> val list \<Rightarrow> 'k blk option \<Rightarrow> val \<Rightarrow> ('k, val) M" where
  "epwait V E line argv blk self =
     bindE (rb_need_block blk) (\<lambda>B.
     bindE (liftE (rb_scan_args 0 2 argv)) (\<lambda>args.
     let maxevents = args ! 0; timeout = args ! 1 in
     bindE (if timeout = VNil then ret (-1) else liftE (NUM2INT timeout)) (\<lambda>t.
     bindE (if maxevents = VNil then ret 64 else liftE (NUM2INT maxevents)) (\<lambda>maxev.
     bindE (ept_get V line maxev) (\<lambda>p.
     bindE (upd_ept p (\<lambda>e. e\<lparr>ep_timeout := t, ep_io := self\<rparr>)) (\<lambda>_.
     rb_ensure (real_epwait V E B p) (rb_sp_puttlsbuf (Some p))))))))"

definition event_flags :: "'k vm \<Rightarrow> val \<Rightarrow> val \<Rightarrow> fail + val" where
  "event_flags V self flags = map_sum id UINT2NUM (rb_sp_get_uflags V self flags)"

section \<open>Definitions made at load time\<close>

definition sleepy_penguin_init_epoll :: "hdr \<Rightarrow> rb_def list" where
  "sleepy_penguin_init_epoll H =
     [DefModule mSleepyPenguin, DefClass cEpoll, DefClass cEpoll_IO, DefSingleton cEpoll_IO ''new'' 1,
      DefMethod cEpoll_IO ''epoll_ctl'' 3, DefMethod cEpoll_IO ''epoll_wait'' (-1),
      DefMethod cEpoll ''__event_flags'' 1,
      DefConst cEpoll ''CTL_ADD'' (INT2NUM (macro H ''EPOLL_CTL_ADD'')),
      DefConst cEpoll ''CTL_DEL'' (INT2NUM (macro H ''EPOLL_CTL_DEL'')),
      DefConst cEpoll ''CTL_MOD'' (INT2NUM (macro H ''EPOLL_CTL_MOD'')),
      DefConst cEpoll ''CLOEXEC'' (INT2NUM (sint EPOLL_CLOEXEC)),
      DefConst cEpoll ''IN'' (as_uint (macro H ''EPOLLIN'')),
      DefConst cEpoll ''OUT'' (as_uint (macro H ''EPOLLOUT''))]
     @ ifdef H ''EPOLLRDHUP'' (\<lambda>n. DefConst cEpoll ''RDHUP'' (as_uint n))
     @ ifdef H ''EPOLLWAKEUP'' (\<lambda>n. DefConst cEpoll ''WAKEUP'' (as_uint n))
     @ ifdef H ''EPOLLEXCLUSIVE'' (\<lambda>n. DefConst cEpoll ''EXCLUSIVE'' (as_uint n))
     @ [DefConst cEpoll ''PRI'' (as_uint (macro H ''EPOLLPRI'')),
        DefConst cEpoll ''ERR'' (as_uint (macro H ''EPOLLERR'')),
        DefConst cEpoll ''HUP'' (as_uint (macro H ''EPOLLHUP'')),
        DefConst cEpoll ''ET'' (as_uint (macro H ''EPOLLET'')),
        DefConst cEpoll ''ONESHOT'' (as_uint (macro H ''EPOLLONESHOT''))]"

section \<open>The buffer of a wait\<close>

text \<open>
  The buffer holds an \<open>ep_per_thread\<close> for \<open>mx\<close> events with room for all of them, and at least \<open>n\<close>
  events have been written.
\<close>

definition ep_room :: "int \<Rightarrow> nat \<Rightarrow> rb_sp_tlsbuf \<Rightarrow> bool" where
  "ep_room mx n b \<longleftrightarrow> (\<exists>e. ptr b = P_ept e \<and> ep_maxevents e = mx \<and> n \<le> length (ep_events e)) \<and>
     unat sizeof_ep_per_thread + unat sizeof_epoll_event * nat mx \<le> unat (capa b)"

text \<open>What \<open>epoll_wait(2)\<close> documents: at most \<open>maxevents\<close> events are returned.\<close>

definition epoll_wait_bounded :: "'k epoll_sys \<Rightarrow> bool" where
  "epoll_wait_bounded E \<longleftrightarrow> (\<forall>fd mx t e evs e'. sys_epoll_wait E fd mx t e = (Inr evs, e') \<longrightarrow>
     length evs \<le> nat mx)"

lemma disc_get_ept:
  assumes "\<And>e. disciplined {p} (\<lambda>b. ptr b = P_ept e \<and> ep_room mx n b) (g e) K"
  shows "disciplined {p} (ep_room mx n) (bindE (get_ept p) g) K"
  unfolding get_ept_def bindE_assoc
proof (rule disc_bindE [OF disc_deref], rule disc_known, goal_cases)
  case (1 b b')
  then obtain e where "ptr b = P_ept e" by (auto simp: ep_room_def)
  then show ?case by simp (rule disciplined_weaken [OF assms [of e]], auto)
qed

lemma disc_read_ept:
  assumes "\<And>e. disciplined {p} (ep_room mx n) (g e) K"
  shows "disciplined {p} (ep_room mx n) (bindE (get_ept p) g) K"
  by (rule disc_get_ept) (rule disc_pre [OF _ assms], simp)

lemma disc_upd_ept:
  assumes "\<And>e. ep_maxevents (f e) = ep_maxevents e" and "\<And>e. ep_events (f e) = ep_events e"
  shows "disciplined {p} (ep_room mx n) (upd_ept p f) (\<lambda>_. ep_room mx n)"
  unfolding upd_ept_def put_ept_def
  by (rule disc_get_ept) (rule disciplined_weaken [OF disc_set_ptr [where J = "ep_room mx n"]],
      auto simp: ep_room_def assms)

lemma disc_write_events:
  assumes "length evs \<le> nat mx"
  shows "disciplined {p} (ep_room mx n) (write_events p evs) (\<lambda>_. ep_room mx (length evs))"
  unfolding write_events_def
proof (rule disc_bindE [OF disc_deref], rule disc_known, goal_cases)
  case (1 b b')
  have le: "unat sizeof_epoll_event * length evs \<le> unat sizeof_epoll_event * nat mx"
    using assms by (rule mult_le_mono2)
  from 1 have "unat sizeof_ep_per_thread + unat sizeof_epoll_event * nat mx \<le> unat (capa b)"
    unfolding ep_room_def by blast
  with le have "unat sizeof_ep_per_thread + unat sizeof_epoll_event * length evs \<le> unat (capa b)"
    by (rule order_trans [OF add_left_mono])
  moreover have "disciplined {p} (ep_room mx n) (upd_ept p (ep_events_update (\<lambda>_. evs)))
      (\<lambda>_. ep_room mx (length evs))"
    unfolding upd_ept_def put_ept_def
    by (rule disc_get_ept) (rule disciplined_weaken [OF disc_set_ptr
          [where J = "ep_room mx (length evs)"]], auto simp: ep_room_def)
  ultimately show ?case by (auto elim!: disciplined_weaken)
qed

lemma disc_nogvl_wait:
  assumes "epoll_wait_bounded E"
  shows "disciplined {p} (ep_room mx 0) (nogvl_wait E p) (\<lambda>n. ep_room mx (nat n))"
  unfolding nogvl_wait_def
proof (rule disc_get_ept, rule disc_known, rule disc_syscall, goal_cases)
  case (1 ept b evs e e')
  then have "length evs \<le> nat mx" using assms unfolding epoll_wait_bounded_def ep_room_def
    by (metis payload.inject(1))
  then show ?case
    by simp (rule disciplined_weaken [OF disc_bindE [OF disc_write_events [of evs mx p 0] disc_ret]], auto)
next
  case (2 ept b)
  show ?case by simp (rule disc_ret, simp)
qed

lemma disc_ep_fd_check: "disciplined {p} (ep_room mx n) (ep_fd_check V p) (\<lambda>_. ep_room mx n)"
  unfolding ep_fd_check_def
  by (intro disc_bindE_keeps [where m = get_errno] disc_bindE_keeps [where m = "rb_sp_fileno _ _"]
      keeps_intros safe_intros disc_read_ept disc_bindE [OF disc_upd_ept] disciplined_keeps) simp_all

lemma disc_now_ms: "keeps bufs (now_ms V)" "safe (now_ms V)"
  unfolding now_ms_def by (intro keeps_intros safe_intros)+

lemma disc_epoll_resume_p:
  "disciplined {p} (ep_room mx n) (epoll_resume_p V expire_at p) (\<lambda>_. ep_room mx n)"
  unfolding epoll_resume_p_def
  by (intro disc_bindE [OF disc_ep_fd_check] disc_bindE_keeps [where m = get_errno]
      disc_bindE_keeps [where m = "now_ms _"] disc_now_ms keeps_intros safe_intros
      disc_if disc_read_ept disc_ret disc_bindE [OF disc_upd_ept]) simp_all

lemma disc_epwait_loop:
  assumes "epoll_wait_bounded E"
  shows "disciplined {p} (ep_room mx 0) (epwait_loop V E expire_at p) (\<lambda>n. ep_room mx (nat n))"
  unfolding epwait_loop_def rb_sp_fd_region_def
proof (rule disc_loopE [where J = "\<lambda>_. ep_room mx 0"], rule disc_read_ept,
    rule disc_bindE [OF disc_without_gvl [OF disc_nogvl_wait [OF assms]]], rule disc_if)
  show "disciplined {p} (ep_room mx (nat n)) (bindE (epoll_resume_p V expire_at p)
      (\<lambda>again. ret (if again then Inl () else Inr n)))
      (\<lambda>r. case r of Inl x' \<Rightarrow> ep_room mx 0 | Inr a \<Rightarrow> ep_room mx (nat a))" if "n < 0" for n
    using that by (intro disc_bindE [OF disc_epoll_resume_p] disc_ret) simp
  show "disciplined {p} (ep_room mx (nat n)) (ret (Inr n))
      (\<lambda>r. case r of Inl x' \<Rightarrow> ep_room mx 0 | Inr a \<Rightarrow> ep_room mx (nat a))" for n
    by (rule disc_ret) simp
qed

lemma disc_ep_yield:
  assumes B: "\<And>v. balanced (B v)" and "i + k \<le> n"
  shows "disciplined {p} (ep_room mx n) (ep_yield B p k i) (\<lambda>_. ep_room mx n)"
  using assms(2)
proof (induction k arbitrary: i)
  case 0
  show ?case by simp (rule disc_ret)
next
  case (Suc k)
  show ?case
    unfolding ep_yield.simps
  proof (rule disc_get_ept, rule disc_known, goal_cases)
    case (1 e b)
    then have "i < length (ep_events e)" using Suc.prems by (auto simp: ep_room_def)
    moreover have "disciplined {p} (ep_room mx n) (bindE (B v) (\<lambda>_. ep_yield B p k (Suc i))) (\<lambda>_. ep_room mx n)" for v
      by (rule disc_bindE [OF balanced_disciplined [OF B] Suc.IH]) (use Suc.prems in simp)
    ultimately show ?case by simp (rule disc_pre, erule conjunct2, simp)
  qed
qed

lemma disc_epwait_result:
  assumes B: "\<And>v. balanced (B v)"
  shows "disciplined {p} (ep_room mx (nat n)) (epwait_result B p n) (\<lambda>_ _. True)"
  unfolding epwait_result_def
proof (rule disc_bindE [where K = "\<lambda>m. ep_room mx (nat m)"], goal_cases)
  case 1
  show ?case
    by (intro disc_if disc_bindE_keeps keeps_intros safe_intros disc_ret disc_rb_sys_fail) auto
next
  case (2 m)
  show ?case by (intro disc_bindE [OF disc_ep_yield [OF B]] disc_ret) simp_all
qed

lemma disc_real_epwait:
  assumes "epoll_wait_bounded E" and B: "\<And>v. balanced (B v)"
  shows "disciplined {p} (ep_room mx 0) (real_epwait V E B p) (\<lambda>_ _. True)"
  unfolding real_epwait_def
proof (rule disc_read_ept)
  fix ept
  have "disciplined {p} (ep_room mx 0) (bindE (upd_ept p (ep_fd_update (\<lambda>_. fd)))
      (\<lambda>_. bindE (epwait_loop V E t p) (epwait_result B p))) (\<lambda>_ _. True)" for fd t
    by (intro disc_bindE [OF disc_upd_ept] disc_bindE [OF disc_epwait_loop [OF assms(1)]]
        disc_epwait_result [OF B]) simp_all
  then show "disciplined {p} (ep_room mx 0)
      (bindE (if ep_timeout ept > 0 then bindE (now_ms V) (\<lambda>now. ret (now + of_int (ep_timeout ept)))
            else ret 0) (\<lambda>expire_at.
       bindE (rb_sp_fileno V (ep_io ept)) (\<lambda>fd.
       bindE (upd_ept p (ep_fd_update (\<lambda>_. fd))) (\<lambda>_.
       bindE (epwait_loop V E expire_at p) (\<lambda>n. epwait_result B p n))))) (\<lambda>_ _. True)"
    by (intro disc_bindE_keeps [where m = "if _ then _ else _"] disc_bindE_keeps [where m = "rb_sp_fileno _ _"]
        keeps_intros safe_intros disc_now_ms)
qed

text \<open>The largest \<open>maxevents\<close> whose buffer size fits the 32-bit capacity of a scratch buffer.\<close>

definition maxevents_limit :: int where "maxevents_limit = 357913939"

lemma unat_ept_size:
  assumes "0 \<le> mx" and "mx \<le> maxevents_limit"
  shows "unat (ept_size mx) = unat sizeof_ep_per_thread + unat sizeof_epoll_event * nat mx"
    and "ept_size mx < UINT32_MAX"
proof -
  have "ept_size mx = word_of_nat (24 + 12 * nat mx)"
    using assms by (simp add: ept_size_def sizeof_ep_per_thread_def sizeof_epoll_event_def)
  moreover have "24 + 12 * nat mx < 2 ^ 32 - 1" using assms by (simp add: maxevents_limit_def)
  ultimately have u: "unat (ept_size mx) = 24 + 12 * nat mx"
    using unat_word_of_nat [where 'a = 64, of "24 + 12 * nat mx"] by (simp only:) simp
  then show "unat (ept_size mx) = unat sizeof_ep_per_thread + unat sizeof_epoll_event * nat mx"
    by (simp add: sizeof_ep_per_thread_def sizeof_epoll_event_def)
  show "ept_size mx < UINT32_MAX"
    using u assms by (simp add: UINT32_MAX_def maxevents_limit_def word_less_nat_alt)
qed

lemma set_then_upd_ept:
  "bindE (set_ptr p (P_ept e)) (\<lambda>_. bindE (upd_ept p f) g) = bindE (set_ptr p (P_ept (f e))) g"
  by (rule ext) (simp add: set_ptr_def store_def upd_ept_def put_ept_def get_ept_def deref_def run_simps
      split: option.splits)

lemma balanced_borrow_epwait:
  assumes E: "epoll_wait_bounded E" and B: "\<And>v. balanced (B v)" and V: "mem_ok V"
    and mx: "mx \<le> maxevents_limit"
  shows "balanced (bindE (ept_get V line mx) (\<lambda>p.
     bindE (upd_ept p (\<lambda>e. e\<lparr>ep_timeout := t, ep_io := self\<rparr>)) (\<lambda>_.
     rb_ensure (real_epwait V E B p) (rb_sp_puttlsbuf (Some p)))))"
proof (cases "mx \<le> 0")
  case True
  then show ?thesis
    by (simp add: ept_get_def bindE_assoc) (intro disc_bindE_keeps keeps_intros safe_intros disc_rb_sys_fail)
next
  case False
  note sz = unat_ept_size [OF _ mx]
  have room: "ep_room mx 0 (b\<lparr>ptr := P_ept (new_ept mx\<lparr>ep_timeout := t, ep_io := self\<rparr>)\<rparr>)" if "ept_size mx \<le> ucast (capa b)" for b
  proof -
    have "unat (ept_size mx) \<le> unat (capa b)" using that by (simp add: word_le_nat_alt unat_ucast_32_64)
    then show ?thesis using sz False by (simp add: ep_room_def new_ept_def)
  qed
  show ?thesis
    using False sz(2)
    by (simp add: ept_get_def put_ept_def bindE_assoc set_then_upd_ept)
      (rule tls.borrow_balanced [of "(V, line)", simplified, OF V], simp,
        rule releases_set_ptr [OF room tls.ensure_releases [OF disc_real_epwait [OF E B]]])
qed

section \<open>Creation\<close>

interpretation epoll_fd: fd_source V "sys_epoll_create1 E flags" "''epoll_create1''" "epoll_open V E flags"
  for V E flags
  by unfold_locales (simp add: epoll_open_def)

section \<open>What the block sees\<close>

text \<open>
  Reading the events back from the buffer, between calls of the block that may themselves wait,
  is the same as going through the list of events the kernel wrote.
\<close>

lemma get_ept_run: "heap s p = Some b \<Longrightarrow> ptr b = P_ept e \<Longrightarrow> get_ept p s = Some (Inr e, s)"
  by (simp add: get_ept_def deref_def run_simps)

definition ept_events :: "payload \<Rightarrow> epoll_event list option" where
  "ept_events x = (case x of P_ept e \<Rightarrow> Some (ep_events e) | _ \<Rightarrow> None)"

interpretation ep_buf: event_buffer B p ept_events ep_args "ep_yield B p" for B p
  by unfold_locales (auto simp: ept_events_def run_simps get_ept_run split: payload.splits)

section \<open>Restarting after signals\<close>

lemma nogvl_wait_negative:
  assumes "nogvl_wait E p s = Some (Inr n, t)" and "n < 0"
  obtains ept er e' where "get_ept p s = Some (Inr ept, s)"
    and "sys_epoll_wait E (ep_fd ept) (ep_maxevents ept) (ep_timeout ept) (env s) = (Inl er, e')"
    and "t = s\<lparr>env := e'\<lparr>errno := er\<rparr>\<rparr>"
proof -
  from assms(1) obtain ept where g: "get_ept p s = Some (Inr ept, s)"
    by (auto simp: nogvl_wait_def get_ept_def deref_def run_simps
        split: option.splits sum.splits payload.splits)
  obtain r e' where w: "sys_epoll_wait E (ep_fd ept) (ep_maxevents ept) (ep_timeout ept) (env s) = (r, e')"
    by fastforce
  show thesis
  proof (cases r)
    case (Inl er)
    with assms(1) g w that show ?thesis
      by (simp add: nogvl_wait_def run_simps syscall_def envE_def set_errno_def)
  next
    case (Inr evs)
    with assms g w show ?thesis
      by (auto simp: nogvl_wait_def run_simps syscall_def envE_def split: option.splits sum.splits)
  qed
qed

lemma epoll_resume_p_True:
  assumes "epoll_resume_p V x p s = Some (Inr b, t)"
  shows "b \<longleftrightarrow> errno (env s) = EINTR"
  using assms
  by (auto simp: epoll_resume_p_def ep_fd_check_def get_errno_def set_errno_def run_simps
      split: option.splits sum.splits if_splits)

lemma heap_only_calm: "(\<And>s r t. m s = Some (r, t) \<Longrightarrow> env t = env s) \<Longrightarrow> calm \<mu> m"
  by (simp add: calm_def)

lemma calm_get_ept: "calm \<mu> (get_ept p)"
  by (rule heap_only_calm)
    (auto simp: get_ept_def deref_def run_simps split: option.splits payload.splits)

lemma calm_upd_ept: "calm \<mu> (upd_ept p f)"
  by (rule heap_only_calm)
    (auto simp: upd_ept_def put_ept_def get_ept_def deref_def set_ptr_def store_def run_simps
      split: option.splits payload.splits)

lemma calm_epoll_resume_p:
  assumes V: "vm_calm \<mu> V"
  shows "calm \<mu> (epoll_resume_p V x p)"
proof -
  from V have "calm \<mu> (envE (vm_clock_gettime V))" by (intro calm_envE) (simp add: vm_calm_def)
  then show ?thesis
    unfolding epoll_resume_p_def ep_fd_check_def now_ms_def clock_gettime_def
    by (intro calm_intros calm_get_ept calm_upd_ept calm_rb_sp_fileno [OF V] calm_set_errno [OF V])
qed

lemma total_ept [total_intros]: "total (get_ept p)" "total (upd_ept p f)" "total (write_events p evs)"
  by (auto simp: total_def get_ept_def upd_ept_def put_ept_def write_events_def deref_def set_ptr_def
      store_def run_simps split: option.splits payload.splits sum.splits)

lemma total_nogvl_wait [total_intros]: "total (nogvl_wait E p)"
  unfolding nogvl_wait_def by (intro total_intros)

lemma total_epoll_resume_p [total_intros]: "total (epoll_resume_p V x p)"
  unfolding epoll_resume_p_def ep_fd_check_def now_ms_def by (intro total_intros)

interpretation epoll_restart: restart_loop
  "bindE (get_ept p) (\<lambda>ept. rb_sp_fd_region V (nogvl_wait E p) (ep_fd ept))" "epoll_resume_p V x p"
  "epwait_loop V E x p" for V E x p
  by unfold_locales (simp add: epwait_loop_def bindE_assoc)

text \<open>A wait that gives a negative number failed in the kernel, and \<open>errno\<close> says why.\<close>

lemma epoll_wait_negative:
  assumes "bindE (get_ept p) (\<lambda>ept. rb_sp_fd_region V (nogvl_wait E p) (ep_fd ept)) s = Some (Inr n, u)" and "n < 0"
  obtains ept :: ep_per_thread and er e'
  where "sys_epoll_wait E (ep_fd ept) (ep_maxevents ept) (ep_timeout ept) (env s) = (Inl er, e')"
    and "env u = (snd (vm_check_ints V (e'\<lparr>errno := er\<rparr>)))\<lparr>errno := er\<rparr>"
proof -
  from assms(1) obtain ept s0 where g: "get_ept p s = Some (Inr ept, s0)"
    and r: "rb_sp_fd_region V (nogvl_wait E p) (ep_fd ept) s0 = Some (Inr n, u)" by (rule bindE_Inr_cases)
  from g have s0: "s0 = s"
    by (auto simp: get_ept_def deref_def run_simps split: option.splits payload.splits)
  from r obtain w where w: "nogvl_wait E p s = Some (Inr n, w)"
    and u: "u = w\<lparr>env := (snd (vm_check_ints V (env w)))\<lparr>errno := errno (env w)\<rparr>\<rparr>"
    unfolding rb_sp_fd_region_def s0 by (rule without_gvl_Inr)
  obtain ept' :: ep_per_thread and er e'
    where "sys_epoll_wait E (ep_fd ept') (ep_maxevents ept') (ep_timeout ept') (env s) = (Inl er, e')"
      and "w = s\<lparr>env := e'\<lparr>errno := er\<rparr>\<rparr>" using w assms(2) by (rule nogvl_wait_negative)
  with u show thesis by (intro that [of ept' er e']) simp_all
qed

lemma balanced_epwait:
  assumes E: "epoll_wait_bounded E" and V: "mem_ok V" and B: "\<And>B v. blk = Some B \<Longrightarrow> balanced (B v)"
    and mx: "\<And>v vs n. argv = v # vs \<Longrightarrow> NUM2INT v = Inr n \<Longrightarrow> n \<le> maxevents_limit"
  shows "balanced (epwait V E line argv blk self)"
proof (cases blk)
  case None
  then show ?thesis by (simp add: epwait_def rb_need_block_def disc_rb_raise)
next
  case (Some B')
  have num: "\<not> crash f" if "NUM2INT v = Inl f" for v f
    using that safe_NUM2INT [of v] by (simp add: safe_def run_simps)
  have core: "balanced (bindE (ept_get V line n) (\<lambda>p.
     bindE (upd_ept p (\<lambda>e. e\<lparr>ep_timeout := t, ep_io := self\<rparr>)) (\<lambda>_.
     rb_ensure (real_epwait V E B' p) (rb_sp_puttlsbuf (Some p)))))" if "n \<le> maxevents_limit" for n t
    by (rule balanced_borrow_epwait [OF E B [OF Some] V that])
  have scan: "\<not> crash f" if "rb_scan_args 0 2 argv = Inl f" for f
    using that by (auto simp: rb_scan_args_def split: if_splits)
  have lim: "64 \<le> maxevents_limit" by (simp add: maxevents_limit_def)
  have arg: "n \<le> maxevents_limit" if "rb_scan_args 0 2 argv = Inr args" "args ! 0 \<noteq> VNil"
      "NUM2INT (args ! 0) = Inr n" for args n
    using that mx by (cases argv) (auto simp: rb_scan_args_def numeral_2_eq_2 split: if_splits)
  show ?thesis
    unfolding epwait_def Some rb_need_block_def option.case bindE_ret Let_def
    by (intro disc_liftE) (auto simp: bindE_if split: if_splits
        intro!: disc_liftE core lim dest: num arg scan)
qed

section \<open>Time\<close>

lemma timespec_ms_nanos:
  assumes "ts_ok a"
  shows "timespec_ms a = word_of_int ((ts_nanos a + 500000) div 1000000)"
    and "0 \<le> (ts_nanos a + 500000) div 1000000" and "(ts_nanos a + 500000) div 1000000 < 2 ^ 61"
proof -
  have "(tv_nsec a + 500000) sdiv 1000000 = (tv_nsec a + 500000) div 1000000"
    using assms by (simp add: ts_ok_def signed_divide_int_def)
  moreover have "tv_sec a * 1000 + (tv_nsec a + 500000) div 1000000 = (ts_nanos a + 500000) div 1000000"
    by (simp add: ts_nanos_def)
  ultimately show "timespec_ms a = word_of_int ((ts_nanos a + 500000) div 1000000)"
    by (simp add: timespec_ms_def)
  show "0 \<le> (ts_nanos a + 500000) div 1000000" and "(ts_nanos a + 500000) div 1000000 < 2 ^ 61"
  proof -
    have "0 \<le> ts_nanos a + 500000" and "ts_nanos a + 500000 < 2 ^ 61 * 1000000"
      using assms by (auto simp: ts_ok_def ts_nanos_def)
    then show "0 \<le> (ts_nanos a + 500000) div 1000000" and "(ts_nanos a + 500000) div 1000000 < 2 ^ 61"
      by (simp_all add: pos_imp_zdiv_nonneg_iff)
  qed
qed

section \<open>Properties\<close>

text \<open>C1: a call of \<open>Epoll::IO#epoll_wait\<close> leaves the thread's scratch buffers exactly as it found
  them, whatever it returns or raises, and never writes past its buffer, uses a freed one or trips
  an assertion: the same buffers are lent, with the same contents, and the pool is well formed.
  The block may do anything that has this property itself, the kernel returns at most
  \<open>maxevents\<close> events, and memory is available.\<close>

theorem epwait_leaves_buffers:
  assumes "epoll_wait_bounded E" and "mem_ok V" and "\<And>B v. blk = Some B \<Longrightarrow> balanced (B v)"
    and "\<And>v vs n. argv = v # vs \<Longrightarrow> NUM2INT v = Inr n \<Longrightarrow> n \<le> maxevents_limit"
    and "tls_inv s" and "epwait V E line argv blk self s = Some (r, t)"
  shows "tls_inv t \<and> lent t = lent s \<and> (\<forall>p \<in> lent s. heap t p = heap s p) \<and>
    (case r of Inl f \<Rightarrow> \<not> crash f | Inr v \<Rightarrow> True)"
proof -
  have "balanced (epwait V E line argv blk self)" using assms(1-4) by (rule balanced_epwait)
  with assms(5,6) have "tls_frame {} s t \<and> (case r of Inl f \<Rightarrow> \<not> crash f | Inr v \<Rightarrow> owned {} (\<lambda>_. True) t)"
    unfolding disciplined_def by (meson owned_empty)
  then show ?thesis by (cases r) (auto simp: tls_frame_def)
qed

text \<open>Waits nested \<open>n\<close> deep, each in the block of the one around it.\<close>

primrec nested_wait :: "'k vm \<Rightarrow> 'k epoll_sys \<Rightarrow> 64 word \<Rightarrow> val list \<Rightarrow> 'k blk \<Rightarrow> val \<Rightarrow> nat \<Rightarrow> 'k blk" where
  "nested_wait V E line argv B self 0 = B"
| "nested_wait V E line argv B self (Suc n) =
     (\<lambda>_. epwait V E line argv (Some (nested_wait V E line argv B self n)) self)"

lemma balanced_nested_wait:
  assumes "epoll_wait_bounded E" and "mem_ok V" and "\<And>v. balanced (B v)"
    and "\<And>v vs n. argv = v # vs \<Longrightarrow> NUM2INT v = Inr n \<Longrightarrow> n \<le> maxevents_limit"
  shows "balanced (nested_wait V E line argv B self n v)"
proof (induction n arbitrary: v)
  case 0
  show ?case by (simp add: assms(3))
next
  case (Suc n)
  show ?case unfolding nested_wait.simps
  proof (rule balanced_epwait [OF assms(1,2) _ assms(4)])
    show "balanced (B' w)" if "Some (nested_wait V E line argv B self n) = Some B'" for B' w
      using that Suc.IH by auto
  qed
qed

text \<open>C2: waits may be nested in one thread to any depth (the feature of 3.5.0): the innermost to
  the outermost call keep their buffers apart, and after the outermost returns every buffer the
  nested calls allocated has been freed again.\<close>

theorem nested_epwait_no_leak:
  assumes "epoll_wait_bounded E" and "mem_ok V" and "\<And>v. balanced (B v)"
    and "\<And>v vs n. argv = v # vs \<Longrightarrow> NUM2INT v = Inr n \<Longrightarrow> n \<le> maxevents_limit"
    and "tls_inv s" and "nested_wait V E line argv B self n v s = Some (r, t)"
  shows "tls_inv t \<and> lent t = lent s \<and> (\<forall>p \<in> lent s. heap t p = heap s p)"
  using disciplinedD(1) [OF balanced_nested_wait [OF assms(1-4)] assms(5) owned_empty assms(6)]
  by (auto simp: tls_frame_def)

text \<open>C7: the block of \<open>epoll_wait\<close> is called once for every event the kernel returned, in the
  kernel's order, with the event mask and the object that was registered, and the call returns
  their number; this holds although the events are read back from the scratch buffer between
  calls of a block that may itself wait.\<close>

theorem epwait_yields_kernel_events:
  assumes "tls_inv s" and "owned {p} (ep_room mx 0) s" and "get_ept p s = Some (Inr ept, s)"
    and "epoll_wait_bounded E" and "\<And>v. balanced (B v)"
    and "sys_epoll_wait E (ep_fd ept) (ep_maxevents ept) (ep_timeout ept) (env s) = (Inr evs, e')"
  shows "\<exists>u. env u = e' \<and> lent u = lent s \<and>
    bindE (nogvl_wait E p) (epwait_result B p) s =
    bindE (yields B (map (\<lambda>ev. [VInt (uint (ee_events ev)), ee_data ev]) evs))
      (\<lambda>_. ret (VInt (int (length evs)))) u"
proof -
  let ?v = "s\<lparr>env := e'\<rparr>"
  from assms(2) obtain b where b: "heap s p = Some b" "buf_type b \<noteq> RB_SP_TLS_READY" "ep_room mx 0 b"
    by (auto simp: owned_def)
  with assms(3) have ept: "ptr b = P_ept ept" and mx: "ep_maxevents ept = mx"
    by (auto simp: ep_room_def get_ept_def deref_def run_simps)
  let ?c = "b\<lparr>ptr := P_ept (ept\<lparr>ep_events := evs\<rparr>)\<rparr>"
  let ?u = "?v\<lparr>heap := (heap ?v)(p \<mapsto> ?c)\<rparr>"
  have len: "length evs \<le> nat mx"
    using assms(4,6) mx unfolding epoll_wait_bounded_def by blast
  have room: "unat sizeof_ep_per_thread + unat sizeof_epoll_event * length evs \<le> unat (capa b)"
    by (rule order_trans [OF add_left_mono [OF mult_le_mono2 [OF len]]])
      (use b(3) in \<open>simp add: ep_room_def\<close>)
  have v: "tls_inv ?v" by (rule tls_frame_inv [OF bufs_eq_frame [OF _ assms(1)]]) simp
  from store_ptr_frame [OF v, of p b "P_ept (ept\<lparr>ep_events := evs\<rparr>)"] b
  have fr: "tls_frame {p} ?v ?u" by simp
  have w: "nogvl_wait E p s = Some (Inr (int (length evs)), ?u)"
    using b(1) ept assms(6) room
    by (simp add: nogvl_wait_def write_events_def upd_ept_def put_ept_def set_ptr_def store_def
        get_ept_def deref_def run_simps syscall_def envE_def)
  have p: "p \<in> lent ?u" using b by (simp add: lent_def)
  have "ep_yield B p (length evs) 0 ?u = yields B (map ep_args evs) ?u"
    using ep_buf.loop_yields_all [where B = B, OF assms(5) tls_frame_inv [OF fr] p, of ?c evs "length evs"]
    by (simp add: ept_events_def)
  then have "bindE (nogvl_wait E p) (epwait_result B p) s =
      bindE (yields B (map ep_args evs)) (\<lambda>_. ret (VInt (int (length evs)))) ?u"
    by (simp add: run_simps w epwait_result_def)
  moreover have "lent ?u = lent s" using tls_frame_lent [OF fr] by (simp add: lent_def)
  moreover have "map ep_args evs = map (\<lambda>ev. [VInt (uint (ee_events ev)), ee_data ev]) evs"
    by (simp add: ep_args_def unpack_event_data_def)
  ultimately show ?thesis by (intro exI [of _ ?u]) simp
qed

text \<open>C32: interrupted waits are restarted and never reported: when the loop around \<open>epoll_wait\<close>
  gives up, the error is not EINTR (so the EINTR case of \<open>epwait_result\<close> is dead code), and the
  Ruby exception raised carries the kernel's error.\<close>

theorem epwait_hides_EINTR:
  assumes "epwait_loop V E x p s = Some (Inr n, t)" and "n < 0"
  shows "errno (env t) \<noteq> EINTR \<and>
    epwait_result B p n t = Some (Inl (Raise (SystemCallError (errno (env t)) ''epoll_wait'')), t)"
proof -
  obtain u where u: "epoll_resume_p V x p u = Some (Inr False, t)"
    using epoll_restart.loop_negative [OF assms] by blast
  then have "errno (env t) = errno (env u)"
    by (auto simp: epoll_resume_p_def ep_fd_check_def get_errno_def set_errno_def run_simps
        split: option.splits sum.splits if_splits)
  with epoll_resume_p_True [OF u] have "errno (env t) \<noteq> EINTR" by simp
  with assms(2) show ?thesis
    by (auto simp: epwait_result_def run_simps get_errno_def rb_sys_fail_def rb_raise_def)
qed

text \<open>C24: the loop around \<open>epoll_wait\<close> ends: if the interruptions to come are bounded (every
  EINTR uses one up and nothing else the call does brings new ones), it returns or raises.\<close>

theorem epwait_loop_returns:
  assumes "vm_calm \<mu> V"
    and "\<And>fd mx t e e'. sys_epoll_wait E fd mx t e = (Inl EINTR, e') \<Longrightarrow> \<mu> e' < \<mu> e"
  shows "\<exists>r t. epwait_loop V E x p s = Some (r, t)"
proof (rule epoll_restart.loop_returns [where m = "\<lambda>s. \<mu> (env s)"])
  fix s n u t
  assume w: "bindE (get_ept p) (\<lambda>ept. rb_sp_fd_region V (nogvl_wait E p) (ep_fd ept)) s = Some (Inr n, u)" "n < 0"
    and again: "epoll_resume_p V x p u = Some (Inr True, t)"
  from w obtain ept :: ep_per_thread and er e'
    where sys: "sys_epoll_wait E (ep_fd ept) (ep_maxevents ept) (ep_timeout ept) (env s) = (Inl er, e')"
      and u: "env u = (snd (vm_check_ints V (e'\<lparr>errno := er\<rparr>)))\<lparr>errno := er\<rparr>" by (rule epoll_wait_negative)
  have "er = EINTR" using epoll_resume_p_True [OF again] u by simp
  have "\<mu> (env t) \<le> \<mu> (env u)" by (rule calmD [OF calm_epoll_resume_p [OF assms(1)] again])
  also have "\<mu> (env u) \<le> \<mu> e'" using assms(1) unfolding u vm_calm_def by metis
  also have "\<mu> e' < \<mu> (env s)" using sys \<open>er = EINTR\<close> by (intro assms(2)) simp
  finally show "\<mu> (env t) < \<mu> (env s)" .
qed (intro total_intros)+


text \<open>C19: after an interruption the wait goes on for the time that is left: with the deadline
  computed from the first clock reading \<open>a\<close> and a timeout of \<open>t\<close> milliseconds, a later reading
  \<open>b\<close> gives \<open>t\<close> minus the elapsed milliseconds, 0 once they have passed.  In particular the
  32-bit conversion never makes the timeout negative, which would wait forever, or longer.\<close>

theorem epwait_remaining_time:
  assumes "ts_ok a" and "ts_ok b" and "ts_nanos a \<le> ts_nanos b" and "0 < t" and "t < 2 ^ 31"
  shows "remaining_ms (timespec_ms a + of_int t) (timespec_ms b) =
      max 0 (t - (uint (timespec_ms b) - uint (timespec_ms a))) \<and>
    0 \<le> remaining_ms (timespec_ms a + of_int t) (timespec_ms b) \<and>
    remaining_ms (timespec_ms a + of_int t) (timespec_ms b) \<le> t"
proof -
  let ?a = "(ts_nanos a + 500000) div 1000000" and ?b = "(ts_nanos b + 500000) div 1000000"
  note A = timespec_ms_nanos [OF assms(1)] and B = timespec_ms_nanos [OF assms(2)]
  have ab: "?a \<le> ?b" using assms(3) by (simp add: zdiv_mono1)
  have ua: "uint (timespec_ms a) = ?a" using A by (simp add: unsigned_of_int take_bit_int_eq_self)
  have ub: "uint (timespec_ms b) = ?b" using B by (simp add: unsigned_of_int take_bit_int_eq_self)
  have ex: "timespec_ms a + of_int t = word_of_int (?a + t)" using A(1) by simp
  have ue: "uint (timespec_ms a + of_int t) = ?a + t"
    unfolding ex by (rule uint_of_int_small) (use A assms(4,5) in simp_all)
  have "remaining_ms (timespec_ms a + of_int t) (timespec_ms b) = max 0 (t - (?b - ?a))"
  proof (cases "?b > ?a + t")
    case True
    then show ?thesis by (simp add: remaining_ms_def word_less_def ue ub)
  next
    case False
    have "timespec_ms a + of_int t - timespec_ms b = word_of_int (?a + t - ?b)"
      by (simp only: ex B(1) of_int_diff)
    moreover have "sint (ucast (word_of_int (?a + t - ?b) :: 64 word) :: 32 word) = ?a + t - ?b"
      using False ab assms(5) by (intro sint_low_word) auto
    ultimately have "sint (ucast (timespec_ms a + of_int t - timespec_ms b) :: 32 word) = ?a + t - ?b"
      by (simp only:)
    then show ?thesis using False by (simp add: remaining_ms_def word_less_def ue ub)
  qed
  then show ?thesis using ab assms(4) by (auto simp: ua ub)
qed

text \<open>A \<open>maxevents\<close> that is not positive is refused with EINVAL before any buffer is borrowed.\<close>

theorem epwait_rejects_maxevents:
  assumes "NUM2INT mx = Inr n" and "n \<le> 0" and "NUM2INT t = Inr k"
  shows "\<exists>u. epwait V E line [mx, t] (Some B) self s =
      Some (Inl (Raise (SystemCallError EINVAL ''epoll_wait maxevents <= 0'')), u) \<and> bufs u = bufs s"
proof -
  from assms have "mx \<noteq> VNil" and "t \<noteq> VNil" by (auto simp: NUM2INT_def num_between_def)
  with assms show ?thesis
    by (simp add: epwait_def rb_need_block_def rb_scan_args_def run_simps Let_def ept_get_def
        set_errno_def rb_sys_fail_def get_errno_def rb_raise_def)
qed

text \<open>C31: creating an epoll descriptor makes one attempt, or two if the first failed for want of
  descriptors or memory, with a garbage collection in between; the new IO object wraps the
  descriptor obtained, and otherwise the error of the last attempt is raised.\<close>

theorem epoll_new_outcome:
  assumes "rb_sp_get_flags V (VClass cEpoll) vflags (RB_SP_CLOEXEC cloexec EPOLL_CLOEXEC) = Inr flags"
  shows "s_new_epoll V E cloexec vflags s =
    (case fd_outcome V (sys_epoll_create1 E flags) ''epoll_create1'' (env s) of
       (Inl f, e) \<Rightarrow> Some (Inl f, s\<lparr>env := e\<rparr>)
     | (Inr fd, e) \<Rightarrow> rb_call_super_fd V fd (s\<lparr>env := e\<rparr>))"
  using assms
  by (simp add: s_new_epoll_def run_simps epoll_fd.opened_outcome split: prod.splits sum.splits)

text \<open>The substitute for \<open>epoll_create1\<close> leaks no descriptor: it fails only when
  \<open>epoll_create\<close> failed or when setting the close-on-exec flag failed, in which case the
  descriptor has been closed and \<open>errno\<close> is the one of the failed call.\<close>

theorem my_epoll_create1_no_leak:
  assumes "my_epoll_create1 V E flags s = Some (Inr None, t)"
  shows "(\<exists>er e. sys_epoll_create E 1024 (env s) = (Inl er, e) \<and> env t = e\<lparr>errno := er\<rparr>) \<or>
    (\<exists>fd e er e'. sys_epoll_create E 1024 (env s) = (Inr fd, e) \<and> flags AND EPOLL_CLOEXEC \<noteq> 0 \<and>
       vm_fcntl_setfd V fd FD_CLOEXEC e = (Inl er, e') \<and>
       env t = (vm_close V fd (e'\<lparr>errno := er\<rparr>))\<lparr>errno := er\<rparr>)"
proof -
  obtain r e where c: "sys_epoll_create E 1024 (env s) = (r, e)" by fastforce
  show ?thesis
  proof (cases r)
    case (Inl er)
    with c assms show ?thesis
      by (auto simp: my_epoll_create1_def run_simps syscall_def envE_def set_errno_def)
  next
    case (Inr fd)
    obtain q e' where f: "vm_fcntl_setfd V fd FD_CLOEXEC e = (q, e')" by fastforce
    from c Inr assms f show ?thesis
      by (cases q) (auto simp: my_epoll_create1_def run_simps syscall_def envE_def set_errno_def
          get_errno_def split: if_splits)
  qed
qed

section \<open>The properties at concrete inputs\<close>

definition sample_epoll :: "nat epoll_sys" where
  "sample_epoll = \<lparr>
     sys_epoll_create1 = (\<lambda>fl e. (if kern e = 0 then (Inr 7, e) else (Inl EMFILE, e\<lparr>kern := 0\<rparr>))),
     sys_epoll_create = (\<lambda>n e. (Inr 7, e)),
     sys_epoll_ctl = (\<lambda>epfd op fd ev e. (Inr (), e)),
     sys_epoll_wait = (\<lambda>fd mx t. after_interrupts (take (nat mx) [\<lparr>ee_events = 1, ee_data = VFile 0\<rparr>]))\<rparr>"

definition sample_ep_buf :: rb_sp_tlsbuf where
  "sample_ep_buf = \<lparr>capa = 100, buf_type = RB_SP_TLS_INUSE,
     ptr = P_ept ((new_ept 4)\<lparr>ep_io := VFile 0, ep_fd := 5, ep_timeout := 50\<rparr>)\<rparr>"

definition sample_ep_st :: "nat \<Rightarrow> nat st" where
  "sample_ep_st n = \<lparr>env = sample_env n, heap = [0 \<mapsto> sample_ep_buf], brk = 1, rb_sp_key = Some 0\<rparr>"

lemma sample_epoll_bounded: "epoll_wait_bounded sample_epoll"
  by (auto simp: epoll_wait_bounded_def sample_epoll_def after_interrupts_def split: if_splits)

lemma sample_ep_inv: "tls_inv (sample_ep_st n)"
  by (simp add: tls_inv_def sample_ep_st_def sample_ep_buf_def)

lemma sample_owned: "owned {0} (ep_room 4 0) (sample_ep_st n)"
  by (simp add: owned_def ep_room_def sample_ep_st_def sample_ep_buf_def new_ept_def
      sizeof_ep_per_thread_def sizeof_epoll_event_def)

lemma sample_args: "VInt 4 # ws = v # vs \<Longrightarrow> NUM2INT v = Inr n \<Longrightarrow> n \<le> maxevents_limit"
  by (auto simp: NUM2INT_def num_between_def maxevents_limit_def)

lemmas epwait_eval = epwait_def run_simps rb_need_block_def rb_scan_args_def Let_def ept_get_def
  NUM2INT_def num_between_def set_errno_def rb_sys_fail_def get_errno_def envE_def rb_raise_def
  rb_sp_gettlsbuf_def replace_tlsbuf_def alloc_tlsbuf_def set_buf_type_def store_def deref_def
  upd_ept_def put_ept_def get_ept_def set_ptr_def rb_ensure_def real_epwait_def now_ms_def
  clock_gettime_def rb_sp_fileno_file epwait_loop_def rb_sp_fd_region_def without_gvl_def
  nogvl_wait_def syscall_def write_events_def epoll_resume_p_def ep_fd_check_def epwait_result_def
  ep_args_def unpack_event_data_def rb_sp_puttlsbuf_def c_assert_def free_buf_def new_ept_def
  ept_size_def UINT32_MAX_def sizeof_ep_per_thread_def sizeof_epoll_event_def remaining_ms_def
  timespec_ms_def sizeof_rb_sp_tlsbuf_def loopE_unfold sample_epoll_def sample_defs

lemma sample_epwait_run:
  "\<exists>t. epwait sample_vm sample_epoll 64 [VInt 4, VInt 50] (Some (\<lambda>v. ret VNil)) (VFile 0) (sample_st 1) =
     Some (Inr (VInt 1), t)"
  by (simp add: epwait_eval)

theorem epwait_leaves_buffers_witness:
  "\<exists>r t. epwait sample_vm sample_epoll 64 [VInt 4, VInt 50] (Some (\<lambda>v. ret VNil)) (VFile 0) (sample_st 1) =
     Some (r, t) \<and> tls_inv t \<and> lent t = {}"
proof -
  obtain t where run: "epwait sample_vm sample_epoll 64 [VInt 4, VInt 50] (Some (\<lambda>v. ret VNil)) (VFile 0)
      (sample_st 1) = Some (Inr (VInt 1), t)" using sample_epwait_run ..
  note sample_pool(2) [of 1]
  moreover have "tls_inv t \<and> lent t = lent (sample_st 1) \<and> (\<forall>p \<in> lent (sample_st 1). heap t p = heap (sample_st 1) p) \<and>
      (case Inr (VInt 1) :: fail + val of Inl f \<Rightarrow> \<not> crash f | Inr v \<Rightarrow> True)"
    by (rule epwait_leaves_buffers [OF sample_epoll_bounded sample_mem_ok _ _ sample_pool(1) run])
      (rule sample_block sample_args; assumption)+
  ultimately show ?thesis using run by auto
qed

lemma sample_nested_run:
  "\<exists>t. nested_wait sample_vm sample_epoll 64 [VInt 4] (\<lambda>v. ret VNil) (VFile 0) 2 [] (sample_st 0) =
     Some (Inr (VInt 1), t)"
proof -
  have "map_option fst (nested_wait sample_vm sample_epoll 64 [VInt 4] (\<lambda>v. ret VNil) (VFile 0) 2 [] (sample_st 0)) =
     Some (Inr (VInt 1))" by code_simp
  then show ?thesis by auto
qed

theorem nested_epwait_no_leak_witness:
  "\<exists>r t. nested_wait sample_vm sample_epoll 64 [VInt 4] (\<lambda>v. ret VNil) (VFile 0) 2 [] (sample_st 0) =
     Some (r, t) \<and> tls_inv t \<and> lent t = {}"
proof -
  obtain t where run: "nested_wait sample_vm sample_epoll 64 [VInt 4] (\<lambda>v. ret VNil) (VFile 0) 2 []
      (sample_st 0) = Some (Inr (VInt 1), t)" using sample_nested_run ..
  note sample_pool(2) [of 0]
  moreover have "tls_inv t \<and> lent t = lent (sample_st 0) \<and> (\<forall>p \<in> lent (sample_st 0). heap t p = heap (sample_st 0) p)"
    by (rule nested_epwait_no_leak [where B = "\<lambda>v. ret VNil", OF sample_epoll_bounded sample_mem_ok balanced_leaf _
          sample_pool(1) run]) (rule sample_args; assumption)
  ultimately show ?thesis using run by auto
qed

theorem epwait_yields_kernel_events_witness:
  "\<exists>u. lent u = {0} \<and>
    bindE (nogvl_wait sample_epoll 0) (epwait_result (\<lambda>v. ret VNil) 0) (sample_ep_st 0) =
    bindE (yields (\<lambda>v. ret VNil) [[VInt 1, VFile 0]]) (\<lambda>_. ret (VInt 1)) u"
proof -
  let ?e = "(new_ept 4)\<lparr>ep_io := VFile 0, ep_fd := 5, ep_timeout := 50\<rparr>"
  have g: "get_ept 0 (sample_ep_st 0) = Some (Inr ?e, sample_ep_st 0)"
    by (simp add: get_ept_def deref_def run_simps sample_ep_st_def sample_ep_buf_def)
  have w: "sys_epoll_wait sample_epoll (ep_fd ?e) (ep_maxevents ?e) (ep_timeout ?e) (env (sample_ep_st 0)) =
      (Inr [\<lparr>ee_events = 1, ee_data = VFile 0\<rparr>], sample_env 0)"
    by (simp add: sample_epoll_def after_interrupts_def sample_ep_st_def sample_env_def new_ept_def)
  have "lent (sample_ep_st 0) = {0}" by (auto simp: lent_def sample_ep_st_def sample_ep_buf_def)
  with epwait_yields_kernel_events [where B = "\<lambda>v. ret VNil", OF sample_ep_inv sample_owned g
      sample_epoll_bounded balanced_leaf w]
  show ?thesis by auto
qed

definition broken_epoll :: "nat epoll_sys" where
  "broken_epoll = sample_epoll\<lparr>sys_epoll_wait := (\<lambda>fd mx t e. (Inl EBADF, e))\<rparr>"

theorem epwait_hides_EINTR_witness:
  "\<exists>t. epwait_loop sample_vm broken_epoll 0 0 (sample_ep_st 0) = Some (Inr (-1), t) \<and> errno (env t) = EBADF \<and>
    epwait_result (\<lambda>v. ret VNil) 0 (-1) t = Some (Inl (Raise (SystemCallError EBADF ''epoll_wait'')), t)"
proof -
  have "\<exists>t. epwait_loop sample_vm broken_epoll 0 0 (sample_ep_st 0) = Some (Inr (-1), t) \<and> errno (env t) = EBADF"
    by (simp add: epwait_eval broken_epoll_def sample_ep_st_def sample_ep_buf_def)
  then show ?thesis using epwait_hides_EINTR [where B = "\<lambda>v. ret VNil"] by fastforce
qed

theorem epwait_loop_returns_witness:
  "\<exists>r t. epwait_loop sample_vm sample_epoll 0 0 (sample_ep_st 3) = Some (r, t)"
  by (rule epwait_loop_returns [where \<mu> = kern])
    (auto simp: vm_calm_def sample_vm_def sample_wait_def sample_epoll_def after_interrupts_def split: if_splits)

theorem epwait_remaining_time_witness:
  "remaining_ms (timespec_ms \<lparr>tv_sec = 10, tv_nsec = 0\<rparr> + of_int 50) (timespec_ms \<lparr>tv_sec = 10, tv_nsec = 20000000\<rparr>) = 30"
  using epwait_remaining_time [of "\<lparr>tv_sec = 10, tv_nsec = 0\<rparr>" "\<lparr>tv_sec = 10, tv_nsec = 20000000\<rparr>" 50]
  by (simp add: ts_ok_def ts_nanos_def timespec_ms_def)

theorem epwait_rejects_maxevents_witness:
  "\<exists>u. epwait sample_vm sample_epoll 64 [VInt 0, VInt 50] (Some (\<lambda>v. ret VNil)) (VFile 0) (sample_st 0) =
     Some (Inl (Raise (SystemCallError EINVAL ''epoll_wait maxevents <= 0'')), u) \<and> bufs u = bufs (sample_st 0)"
  by (rule epwait_rejects_maxevents [of _ 0 _ 50]) (simp_all add: NUM2INT_def num_between_def)

theorem epoll_new_outcome_witness:
  "s_new_epoll sample_vm sample_epoll True VNil (sample_st 1) =
     rb_call_super_fd sample_vm 7 ((sample_st 1)\<lparr>env := (sample_env 0)\<lparr>errno := EMFILE\<rparr>\<rparr>)"
  using epoll_new_outcome [of sample_vm VNil True EPOLL_CLOEXEC sample_epoll "sample_st 1"]
  by (simp add: rb_sp_get_flags_def RB_SP_CLOEXEC_def fd_outcome_def fd_exhausted_def sample_epoll_def sample_defs)

theorem my_epoll_create1_no_leak_witness:
  "\<exists>t. my_epoll_create1 (sample_vm\<lparr>vm_fcntl_setfd := (\<lambda>fd fl e. (Inl EINVAL, e))\<rparr>) sample_epoll EPOLL_CLOEXEC (sample_st 0) =
     Some (Inr None, t) \<and> errno (env t) = EINVAL"
proof -
  let ?V = "sample_vm\<lparr>vm_fcntl_setfd := (\<lambda>fd fl e. (Inl EINVAL, e))\<rparr>"
  have "\<exists>t. my_epoll_create1 ?V sample_epoll EPOLL_CLOEXEC (sample_st 0) = Some (Inr None, t)"
    by (simp add: my_epoll_create1_def run_simps syscall_def envE_def set_errno_def get_errno_def
        sample_epoll_def sample_defs EPOLL_CLOEXEC_def)
  then obtain t where run: "my_epoll_create1 ?V sample_epoll EPOLL_CLOEXEC (sample_st 0) = Some (Inr None, t)" ..
  from my_epoll_create1_no_leak [OF this] have "errno (env t) = EINVAL"
    by (auto simp: sample_epoll_def)
  with run show ?thesis by blast
qed

end
