(* ===== verification/SP_Fileio.thy ===== *)
theory SP_Fileio
  imports SP_Util SP_Sample
begin

text \<open>
  \<open>read(2)\<close> and \<open>write(2)\<close> on 8-byte counters, and the loop that eventfd.c and timerfd.c write out
  three times: try; if the call would block and the caller asked for non-blocking behaviour give
  up quietly; otherwise wait until the descriptor is ready and try again; report any other error.
  The loop is an interface with laws (\<open>wait_retry\<close>), interpreted by each of the three.
\<close>

section \<open>System calls\<close>

record 'k file_sys =
  sys_read :: "int \<Rightarrow> nat \<Rightarrow> 'k env \<Rightarrow> (errno + 8 word list) \<times> 'k env"
  sys_write :: "int \<Rightarrow> 8 word list \<Rightarrow> 'k env \<Rightarrow> (errno + nat) \<times> 'k env"

text \<open>
  \<open>read(fd, buf, sizeof(uint64_t))\<close>: the result and the new contents of the buffer.  Fewer bytes
  overwrite the front of the old contents.
\<close>

definition read_u64 :: "'k file_sys \<Rightarrow> int \<Rightarrow> 64 word \<Rightarrow> ('k, int \<times> 64 word) M" where
  "read_u64 F fd old = bindE (syscall (sys_read F fd 8)) (\<lambda>r. case r of
       None \<Rightarrow> ret (-1, old)
     | Some bs \<Rightarrow> if length bs \<le> 8
         then ret (int (length bs), le_word (bs @ drop (length bs) (le_bytes 8 old)))
         else throw (UB ''read wrote past the buffer''))"

definition write_u64 :: "'k file_sys \<Rightarrow> int \<Rightarrow> 64 word \<Rightarrow> ('k, int) M" where
  "write_u64 F fd v = bindE (syscall (sys_write F fd (le_bytes 8 v))) (\<lambda>r. case r of
       None \<Rightarrow> ret (-1) | Some n \<Rightarrow> ret (int n))"

text \<open>\<open>read(2)\<close> never stores more than it was asked for.\<close>

definition read_bounded :: "'k file_sys \<Rightarrow> bool" where
  "read_bounded F \<longleftrightarrow> (\<forall>fd n e bs e'. sys_read F fd n e = (Inr bs, e') \<longrightarrow> length bs \<le> n)"

lemma read_u64_full:
  assumes "sys_read F fd 8 (env s) = (Inr (le_bytes 8 v), e')"
  shows "read_u64 F fd old s = Some (Inr (8, v), s\<lparr>env := e'\<rparr>)"
  using assms by (simp add: read_u64_def syscall_def envE_def run_simps)

lemma keeps_u64 [keeps_intros]: "keeps bufs (read_u64 F fd old)" "keeps bufs (write_u64 F fd v)"
  unfolding read_u64_def write_u64_def by (intro keeps_intros)+

lemma total_u64 [total_intros]: "total (read_u64 F fd old)" "total (write_u64 F fd v)"
  unfolding read_u64_def write_u64_def by (intro total_intros)+

lemma safe_write_u64 [safe_intros]: "safe (write_u64 F fd v)"
  unfolding write_u64_def by (intro safe_intros)

lemma safe_read_u64: "read_bounded F \<Longrightarrow> safe (read_u64 F fd old)"
  by (auto simp: safe_def read_u64_def syscall_def envE_def set_errno_def run_simps
      split: sum.splits prod.splits if_splits) (metis prod.collapse read_bounded_def)

section \<open>Waiting\<close>

text \<open>
  What Ruby documents of \<open>rb_io_wait_readable\<close> and \<open>rb_io_wait_writable\<close>: true after EAGAIN or
  EINTR, false after any other error, which stays in \<open>errno\<close>.
\<close>

definition would_block :: "errno \<Rightarrow> bool" where
  "would_block e \<longleftrightarrow> e = EAGAIN \<or> e = EINTR"

definition waits :: "(int \<Rightarrow> 'k env \<Rightarrow> (exn + bool) \<times> 'k env) \<Rightarrow> bool" where
  "waits w \<longleftrightarrow> (\<forall>fd e b e'. w fd e = (Inr b, e') \<longrightarrow>
     b = would_block (errno e) \<and> (\<not> b \<longrightarrow> errno e' = errno e \<and> ios e' = ios e))"

lemma total_rb_sp_wait [total_intros]: "(\<And>fd. total (w fd)) \<Longrightarrow> total (rb_sp_wait V w obj)"
  unfolding rb_sp_wait_def by (intro total_intros)

lemma calm_rb_sp_wait: "vm_calm \<mu> V \<Longrightarrow> (\<And>fd. calm \<mu> (w fd)) \<Longrightarrow> calm \<mu> (rb_sp_wait V w obj)"
  unfolding rb_sp_wait_def by (intro calm_intros calm_rb_sp_fileno)

lemma calm_waits:
  "vm_calm \<mu> V \<Longrightarrow> calm \<mu> (rb_io_wait_readable V fd)"
  "vm_calm \<mu> V \<Longrightarrow> calm \<mu> (rb_io_wait_writable V fd)"
  by (auto intro!: calm_envX simp: vm_calm_def)

lemma rb_sp_wait_True:
  assumes w: "waits w" and q: "rb_sp_wait V (\<lambda>fd. envX (w fd)) (VFile i) s = Some (Inr (True, fd), t)"
  shows "would_block (errno (env s))"
proof -
  from q obtain fd0 where "bindE (envX (w fd0)) (\<lambda>rc. bindE (rb_sp_fileno V (VFile i)) (\<lambda>fd. ret (rc, fd))) s
      = Some (Inr (True, fd), t)"
    unfolding rb_sp_wait_def
    by (rule bindE_Inr_cases) (simp add: rb_sp_fileno_file split: io_state.splits)
  then obtain b u where "envX (w fd0) s = Some (Inr b, u)" and "b"
    by (rule bindE_Inr_cases) (erule bindE_Inr_cases, simp add: run_simps)
  moreover obtain a e' where "w fd0 (env s) = (a, e')" by fastforce
  ultimately have "w fd0 (env s) = (Inr True, e')"
    by (cases a) (auto simp: envX_def envE_def run_simps)
  with w show ?thesis unfolding waits_def by blast
qed

text \<open>
  \<open>attempt x\<close> makes the system call with the loop variables \<open>x\<close> and gives its result and the
  variables afterwards; \<open>resume\<close> stores the descriptor found after the wait.
\<close>

locale wait_retry =
  fixes V :: "'k vm" and self nonblock :: val and w :: "int \<Rightarrow> 'k env \<Rightarrow> (exn + bool) \<times> 'k env"
    and attempt :: "'x \<Rightarrow> ('k, int \<times> 'x) M" and resume :: "'x \<Rightarrow> int \<Rightarrow> 'x"
    and quiet :: val and finish :: "'x \<Rightarrow> val" and msg :: string and loop :: "'x \<Rightarrow> ('k, val) M"
  assumes loop_eq: "loop = loopE (\<lambda>x. bindE (attempt x) (\<lambda>r.
       if fst r < 0 then bindE get_errno (\<lambda>e.
         if e = EAGAIN \<and> RTEST nonblock then ret (Inr quiet)
         else bindE (rb_sp_wait V (\<lambda>fd. envX (w fd)) self) (\<lambda>q.
           if fst q then ret (Inl (resume (snd r) (snd q))) else rb_sys_fail msg))
       else ret (Inr (finish (snd r)))))"
begin

lemma loop_done:
  assumes "attempt x s = Some (Inr (n, x'), t)" and "0 \<le> n"
  shows "loop x s = Some (Inr (finish x'), t)"
  unfolding loop_eq by (rule loopE_stop) (use assms in \<open>simp add: run_simps\<close>)

lemma loop_quiet:
  assumes "attempt x s = Some (Inr (n, x'), t)" and "n < 0" and "errno (env t) = EAGAIN" and "RTEST nonblock"
  shows "loop x s = Some (Inr quiet, t)"
  unfolding loop_eq by (rule loopE_stop) (use assms in \<open>simp add: run_simps get_errno_def\<close>)

text \<open>An error that is no reason to wait is raised, as it was.\<close>

lemma loop_error:
  assumes "attempt x s = Some (Inr (n, x'), t)" and "n < 0" and e: "\<not> would_block (errno (env t))"
    and self: "self = VFile i" "ios (env t) i = IO_open fd" and w: "waits w" "w fd (env t) = (Inr b, e')"
  shows "loop x s = Some (Inl (Raise (SystemCallError (errno (env t)) msg)), t\<lparr>env := e'\<rparr>)"
proof -
  from w have "b = would_block (errno (env t))" unfolding waits_def by blast
  with e w have b: "\<not> b" "errno e' = errno (env t)" "ios e' = ios (env t)" unfolding waits_def by blast+
  have "\<not> (errno (env t) = EAGAIN \<and> RTEST nonblock)" using e by (auto simp: would_block_def)
  then show ?thesis
    unfolding loop_eq
    by (intro loopE_raise) (simp add: assms(1,2) run_simps get_errno_def rb_sp_wait_def self
        rb_sp_fileno_file envX_def envE_def w(2) b rb_sys_fail_def rb_raise_def)
qed

text \<open>Otherwise the call waits and tries again with the descriptor the object has by then.\<close>

lemma loop_again:
  assumes "attempt x s = Some (Inr (n, x'), t)" and "n < 0"
    and e: "errno (env t) = EINTR \<or> errno (env t) = EAGAIN \<and> \<not> RTEST nonblock"
    and self: "self = VFile i" "ios (env t) i = IO_open fd"
    and w: "waits w" "w fd (env t) = (Inr b, e')" "ios e' i = IO_open fd'"
  shows "loop x s = loop (resume x' fd') (t\<lparr>env := e'\<rparr>)"
proof -
  from w(1,2) have "b = would_block (errno (env t))" unfolding waits_def by blast
  with e have b: "b" by (auto simp: would_block_def)
  from e have "\<not> (errno (env t) = EAGAIN \<and> RTEST nonblock)" by auto
  then show ?thesis
    unfolding loop_eq
    by (intro loopE_again) (simp add: assms(1,2) run_simps get_errno_def rb_sp_wait_def self
        rb_sp_fileno_file envX_def envE_def w(2,3) b)
qed

text \<open>One round, read backwards.\<close>

lemma round_cases:
  assumes "bindE (attempt x) (\<lambda>r. if fst r < 0 then bindE get_errno (\<lambda>e.
         if e = EAGAIN \<and> RTEST nonblock then ret (Inr quiet)
         else bindE (rb_sp_wait V (\<lambda>fd. envX (w fd)) self) (\<lambda>q.
           if fst q then ret (Inl (resume (snd r) (snd q))) else rb_sys_fail msg))
       else ret (Inr (finish (snd r)))) s = Some (Inr y, t)"
  obtains (success) n z where "attempt x s = Some (Inr (n, z), t)" and "0 \<le> n" and "y = Inr (finish z)"
    | (quiet) n z where "attempt x s = Some (Inr (n, z), t)" and "n < 0"
        and "errno (env t) = EAGAIN" and "RTEST nonblock" and "y = Inr quiet"
    | (again) n z u fd where "attempt x s = Some (Inr (n, z), u)" and "n < 0"
        and "rb_sp_wait V (\<lambda>fd. envX (w fd)) self u = Some (Inr (True, fd), t)" and "y = Inl (resume z fd)"
proof -
  obtain r u where r: "attempt x s = Some (Inr r, u)"
    and k: "(if fst r < 0 then bindE get_errno (\<lambda>e.
         if e = EAGAIN \<and> RTEST nonblock then ret (Inr quiet)
         else bindE (rb_sp_wait V (\<lambda>fd. envX (w fd)) self) (\<lambda>q.
           if fst q then ret (Inl (resume (snd r) (snd q))) else rb_sys_fail msg))
       else ret (Inr (finish (snd r)))) u = Some (Inr y, t)"
    using assms by (rule bindE_Inr_cases)
  obtain n z where nz: "r = (n, z)" by (rule prod.exhaust)
  note a = r [unfolded nz] and k = k [unfolded nz fst_conv snd_conv]
  show thesis
  proof (cases "n < 0 \<and> \<not> (errno (env u) = EAGAIN \<and> RTEST nonblock)")
    case True
    with k have "bindE (rb_sp_wait V (\<lambda>fd. envX (w fd)) self) (\<lambda>q.
           if fst q then ret (Inl (resume z (snd q))) else rb_sys_fail msg) u = Some (Inr y, t)"
      by (auto simp: get_errno_def bindE_readS)
    then obtain q v where "rb_sp_wait V (\<lambda>fd. envX (w fd)) self u = Some (Inr q, v)"
      and "(if fst q then ret (Inl (resume z (snd q))) else rb_sys_fail msg) v = Some (Inr y, t)"
      by (rule bindE_Inr_cases)
    with a True show thesis
      by (cases q, cases "fst q")
        (auto simp: run_simps rb_sys_fail_def rb_raise_def get_errno_def intro: again)
  next
    case False
    with k a show thesis
      by (auto simp: run_simps get_errno_def split: if_splits intro: success quiet)
  qed
qed

lemma loop_keeps: "(\<And>x. keeps bufs (attempt x)) \<Longrightarrow> keeps bufs (loop x)"
  unfolding loop_eq by (intro keeps_intros)

lemma loop_safe: "(\<And>x. safe (attempt x)) \<Longrightarrow> safe (loop x)"
  unfolding loop_eq by (intro safe_intros)

text \<open>A value other than the quiet one comes from an attempt that succeeded.\<close>

lemma loop_value:
  assumes "loop x s = Some (Inr v, t)"
  shows "v = quiet \<and> RTEST nonblock \<and> errno (env t) = EAGAIN \<or>
    (\<exists>y u n z. attempt y u = Some (Inr (n, z), t) \<and> 0 \<le> n \<and> v = finish z)"
proof -
  from assms have "case (Inr v :: fail + val) of Inl _ \<Rightarrow> True | Inr v \<Rightarrow>
      v = quiet \<and> RTEST nonblock \<and> errno (env t) = EAGAIN \<or>
      (\<exists>y u n z. attempt y u = Some (Inr (n, z), t) \<and> 0 \<le> n \<and> v = finish z)"
    unfolding loop_eq
  proof (rule loopE_rule [where I = "\<lambda>_ _. True"
        and Q = "\<lambda>r t. case r of Inl _ \<Rightarrow> True | Inr v \<Rightarrow>
      v = quiet \<and> RTEST nonblock \<and> errno (env t) = EAGAIN \<or>
      (\<exists>y u n z. attempt y u = Some (Inr (n, z), t) \<and> 0 \<le> n \<and> v = finish z)"], goal_cases)
    case (3 x s v t)
    from 3(2) show ?case by (rule round_cases) auto
  qed simp_all
  then show ?thesis by simp
qed

text \<open>The loop returns when failed attempts use up a bound on the failures to come.\<close>

lemma loop_returns:
  assumes V: "vm_calm \<mu> V" and w: "\<And>fd e. \<mu> (snd (w fd e)) \<le> \<mu> e" and ws: "waits w"
    and total: "\<And>x. total (attempt x)" and self: "self = VFile i"
    and fails: "\<And>x s n x' t. attempt x s = Some (Inr (n, x'), t) \<Longrightarrow> n < 0 \<Longrightarrow>
       would_block (errno (env t)) \<Longrightarrow> \<mu> (env t) < \<mu> (env s)"
  shows "\<exists>r t. loop x s = Some (r, t)"
  unfolding loop_eq
proof (rule loopE_terminates [where I = "\<lambda>_ _. True" and m = "\<lambda>_ s. \<mu> (env s)"], goal_cases)
  case (2 x s)
  have "total (bindE (attempt x) (\<lambda>r. if fst r < 0 then bindE get_errno (\<lambda>e.
         if e = EAGAIN \<and> RTEST nonblock then ret (Inr quiet)
         else bindE (rb_sp_wait V (\<lambda>fd. envX (w fd)) self) (\<lambda>q.
           if fst q then ret (Inl (resume (snd r) (snd q))) else rb_sys_fail msg))
       else ret (Inr (finish (snd r)))))"
    by (intro total_intros total)
  then show ?case by (auto simp: total_def)
next
  case (3 x s x' s')
  from 3(2) obtain n y t fd where a: "attempt x s = Some (Inr (n, y), t)" "n < 0"
    and u: "rb_sp_wait V (\<lambda>fd. envX (w fd)) self t = Some (Inr (True, fd), s')"
    by (rule round_cases) auto
  from u have "would_block (errno (env t))" unfolding self by (rule rb_sp_wait_True [OF ws])
  from fails [OF a this] have "\<mu> (env t) < \<mu> (env s)" .
  moreover have "calm \<mu> (rb_sp_wait V (\<lambda>fd. envX (w fd)) self)"
    by (intro calm_rb_sp_wait V calm_envX w)
  then have "\<mu> (env s') \<le> \<mu> (env t)" using u by (auto dest: calmD)
  ultimately show ?case by simp
qed simp

end

text \<open>A pure step after the call may be taken inside or outside the region.\<close>

lemma rb_sp_fd_region_map:
  "rb_sp_fd_region V (bindE m (\<lambda>r. ret (h r))) fd = bindE (rb_sp_fd_region V m fd) (\<lambda>r. ret (h r))"
  by (rule ext) (simp add: rb_sp_fd_region_def without_gvl_def bindE_def ret_def rb_raise_def throw_def
      split: option.splits prod.splits sum.splits)

section \<open>A call that nothing disturbs\<close>

text \<open>The O_NONBLOCK flag of a descriptor, as \<open>fcntl(fd, F_GETFL)\<close> reports it.\<close>

definition nonblocking :: "'k vm \<Rightarrow> int \<Rightarrow> 'k env \<Rightarrow> bool" where
  "nonblocking V fd e = (case fst (vm_fcntl_getfl V fd e) of
       Inl _ \<Rightarrow> False | Inr fl \<Rightarrow> fl AND O_NONBLOCK = O_NONBLOCK)"

text \<open>
  No interrupt is pending; \<open>fcntl\<close> works as documented: F_GETFL reports the flags and F_SETFL stores
  the ones it is given; none of this touches the part \<open>f\<close> of the kernel's state, and the
  descriptor's O_NONBLOCK flag changes by F_SETFL only.  Whether it is on beforehand is left open.
\<close>

definition undisturbed :: "'k vm \<Rightarrow> int \<Rightarrow> ('k env \<Rightarrow> 'c) \<Rightarrow> bool" where
  "undisturbed V fd f \<longleftrightarrow>
     (\<forall>e x. f (e\<lparr>errno := x\<rparr>) = f e \<and> nonblocking V fd (e\<lparr>errno := x\<rparr>) = nonblocking V fd e) \<and>
     (\<forall>e. fst (vm_check_ints V e) = None \<and> f (snd (vm_check_ints V e)) = f e \<and>
        nonblocking V fd (snd (vm_check_ints V e)) = nonblocking V fd e) \<and>
     (\<forall>e. \<exists>fl. vm_fcntl_getfl V fd e = (Inr fl, e)) \<and>
     (\<forall>fl e. \<exists>e'. vm_fcntl_setfl V fd fl e = (Inr (), e') \<and> f e' = f e \<and>
        nonblocking V fd e' = (fl AND O_NONBLOCK = O_NONBLOCK))"

lemma or_flag: "(fl OR w) AND w = (w :: 'a :: len word)"
  by (rule bit_word_eqI) (simp add: bit_simps)

lemma undisturbed_set_nonblock:
  assumes "undisturbed V fd f"
  shows "\<exists>e'. rb_sp_set_nonblock V fd s = Some (Inr (), s\<lparr>env := e'\<rparr>) \<and> f e' = f (env s) \<and> nonblocking V fd e'"
proof -
  from assms obtain fl where fl: "vm_fcntl_getfl V fd (env s) = (Inr fl, env s)"
    unfolding undisturbed_def by blast
  from assms obtain e' where e': "vm_fcntl_setfl V fd (fl OR O_NONBLOCK) (env s) = (Inr (), e')" "f e' = f (env s)"
    "nonblocking V fd e' = ((fl OR O_NONBLOCK) AND O_NONBLOCK = O_NONBLOCK)"
    unfolding undisturbed_def by meson
  show ?thesis
  proof (cases "fl AND O_NONBLOCK = O_NONBLOCK")
    case True
    with fl show ?thesis
      by (intro exI [of _ "env s"]) (simp add: rb_sp_set_nonblock_def syscall_def envE_def run_simps nonblocking_def)
  next
    case False
    with fl e' show ?thesis
      by (intro exI [of _ e']) (simp add: rb_sp_set_nonblock_def syscall_def envE_def run_simps or_flag)
  qed
qed

lemma undisturbed_region:
  assumes "undisturbed V fd f" and "m s = Some (Inr r, t)"
  shows "\<exists>e'. rb_sp_fd_region V m n s = Some (Inr r, t\<lparr>env := e'\<rparr>) \<and>
     f e' = f (env t) \<and> nonblocking V fd e' = nonblocking V fd (env t) \<and> errno e' = errno (env t)"
proof -
  from assms(1) have c: "fst (vm_check_ints V (env t)) = None" "f (snd (vm_check_ints V (env t))) = f (env t)"
      "nonblocking V fd (snd (vm_check_ints V (env t))) = nonblocking V fd (env t)"
    and x: "f (e\<lparr>errno := y\<rparr>) = f e" "nonblocking V fd (e\<lparr>errno := y\<rparr>) = nonblocking V fd e" for e y
    unfolding undisturbed_def by blast+
  show ?thesis
    by (intro exI [of _ "(snd (vm_check_ints V (env t)))\<lparr>errno := errno (env t)\<rparr>"])
      (simp add: rb_sp_fd_region_def without_gvl_def run_simps assms(2) get_errno_def set_errno_def envE_def c x)
qed

text \<open>The two system calls on a counter, with the lock released.\<close>

lemma undisturbed_read:
  assumes "undisturbed V fd f" and "sys_read F fd 8 (env s) = (r, e')"
    and "\<And>bs. r = Inr bs \<Longrightarrow> bs = le_bytes 8 v"
  shows "\<exists>e''. rb_sp_fd_region V (read_u64 F fd old) fd s =
      Some (Inr (case r of Inl _ \<Rightarrow> (-1, old) | Inr _ \<Rightarrow> (8, v)), s\<lparr>env := e''\<rparr>) \<and>
      f e'' = f e' \<and> nonblocking V fd e'' = nonblocking V fd e' \<and> (\<forall>er. r = Inl er \<longrightarrow> errno e'' = er)"
proof (cases r)
  case (Inl er)
  then have "read_u64 F fd old s = Some (Inr (-1, old), s\<lparr>env := e'\<lparr>errno := er\<rparr>\<rparr>)"
    using assms(2) by (simp add: read_u64_def syscall_def envE_def set_errno_def run_simps)
  from undisturbed_region [where m = "read_u64 F fd old", OF assms(1) this, of fd] Inl assms(1) show ?thesis
    by (auto simp: undisturbed_def)
next
  case (Inr bs)
  then have "read_u64 F fd old s = Some (Inr (8, v), s\<lparr>env := e'\<rparr>)"
    using assms(2,3) by (intro read_u64_full) simp
  from undisturbed_region [where m = "read_u64 F fd old", OF assms(1) this, of fd] Inr show ?thesis by auto
qed

lemma undisturbed_write:
  assumes "undisturbed V fd f" and "sys_write F fd (le_bytes 8 v) (env s) = (r, e')"
  shows "\<exists>e''. rb_sp_fd_region V (write_u64 F fd v) fd s =
      Some (Inr (case r of Inl _ \<Rightarrow> -1 | Inr n \<Rightarrow> int n), s\<lparr>env := e''\<rparr>) \<and>
      f e'' = f e' \<and> nonblocking V fd e'' = nonblocking V fd e' \<and> (\<forall>er. r = Inl er \<longrightarrow> errno e'' = er)"
proof (cases r)
  case (Inl er)
  then have "write_u64 F fd v s = Some (Inr (-1), s\<lparr>env := e'\<lparr>errno := er\<rparr>\<rparr>)"
    using assms(2) by (simp add: write_u64_def syscall_def envE_def set_errno_def run_simps)
  from undisturbed_region [where m = "write_u64 F fd v", OF assms(1) this, of fd] Inl assms(1) show ?thesis
    by (auto simp: undisturbed_def)
next
  case (Inr n)
  then have "write_u64 F fd v s = Some (Inr (int n), s\<lparr>env := e'\<rparr>)"
    using assms(2) by (simp add: write_u64_def syscall_def envE_def run_simps)
  from undisturbed_region [where m = "write_u64 F fd v", OF assms(1) this, of fd] Inr show ?thesis by auto
qed

text \<open>A runtime in which \<open>fcntl\<close> works: the kernel state is a counter and the status flags of a descriptor.\<close>

definition sample_fcntl_vm :: "(nat \<times> 32 word) vm" where
  "sample_fcntl_vm = \<lparr>
     vm_to_io = (\<lambda>v e. (Inl (TypeError ''no implicit conversion into IO''), e)),
     vm_gc = (\<lambda>e. e),
     vm_check_ints = (\<lambda>e. (None, e)),
     vm_io_wait_readable = (\<lambda>fd e. (Inr (would_block (errno e)), e)),
     vm_io_wait_writable = (\<lambda>fd e. (Inr (would_block (errno e)), e)),
     vm_io_new = (\<lambda>fd e. (Inr 1, e\<lparr>ios := (ios e)(1 := IO_open fd)\<rparr>)),
     vm_class_of = (\<lambda>v. cOther 0),
     vm_const_get = (\<lambda>k n. None),
     vm_clock_gettime = (\<lambda>e. (\<lparr>tv_sec = 100, tv_nsec = 0\<rparr>, e)),
     vm_posix_memalign = (\<lambda>a n e. (False, e)),
     vm_setspecific = (\<lambda>e. (None, e)),
     vm_fcntl_getfl = (\<lambda>fd e. (Inr (snd (kern e)), e)),
     vm_fcntl_setfl = (\<lambda>fd fl e. (Inr (), e\<lparr>kern := (fst (kern e), fl)\<rparr>)),
     vm_fcntl_getfd = (\<lambda>fd e. (Inr 0, e)),
     vm_fcntl_setfd = (\<lambda>fd fl e. (Inr (), e)),
     vm_close = (\<lambda>fd e. e)\<rparr>"

text \<open>A counter at \<open>n\<close> and a blocking descriptor (O_RDWR only).\<close>

definition sample_fcntl_st :: "nat \<Rightarrow> (nat \<times> 32 word) st" where
  "sample_fcntl_st n = \<lparr>env = \<lparr>ios = (\<lambda>i. if i = 0 then IO_open 5 else IO_closed), inotify_tmp = (\<lambda>i. None),
     errno = E_other 0, kern = (n, 2)\<rparr>, heap = Map.empty, brk = 0, rb_sp_key = None\<rparr>"

definition sample_count :: "(nat \<times> 32 word) env \<Rightarrow> nat" where
  "sample_count e = fst (kern e)"

lemma sample_nonblocking: "nonblocking sample_fcntl_vm fd e = (snd (kern e) AND O_NONBLOCK = O_NONBLOCK)"
  by (simp add: nonblocking_def sample_fcntl_vm_def)

lemma sample_undisturbed: "undisturbed sample_fcntl_vm fd sample_count"
  by (simp add: undisturbed_def sample_nonblocking) (simp add: sample_fcntl_vm_def sample_count_def)

lemma sample_fcntl_st_blocking: "\<not> nonblocking sample_fcntl_vm fd (env (sample_fcntl_st n))"
  by (simp add: sample_nonblocking sample_fcntl_st_def O_NONBLOCK_def)

lemma sample_fcntl_st_simps: "ios (env (sample_fcntl_st n)) 0 = IO_open 5" "sample_count (env (sample_fcntl_st n)) = n"
  by (simp_all add: sample_fcntl_st_def sample_count_def)

section \<open>Failures that run out\<close>

text \<open>
  The failures to come of a descriptor are bounded by \<open>\<mu>\<close>: each attempt that would block or is
  interrupted uses one up.
\<close>

definition failures_bounded :: "('k env \<Rightarrow> nat) \<Rightarrow> 'k file_sys \<Rightarrow> bool" where
  "failures_bounded \<mu> F \<longleftrightarrow>
     (\<forall>fd bs e er e'. sys_write F fd bs e = (Inl er, e') \<and> would_block er \<longrightarrow> \<mu> e' < \<mu> e) \<and>
     (\<forall>fd n e er e'. sys_read F fd n e = (Inl er, e') \<and> would_block er \<longrightarrow> \<mu> e' < \<mu> e)"

lemma vm_calm_wait:
  "vm_calm \<mu> V \<Longrightarrow> \<mu> (snd (vm_io_wait_readable V fd e)) \<le> \<mu> e"
  "vm_calm \<mu> V \<Longrightarrow> \<mu> (snd (vm_io_wait_writable V fd e)) \<le> \<mu> e"
  by (simp_all add: vm_calm_def)

lemma total_rb_sp_set_nonblock [total_intros]: "total (rb_sp_set_nonblock V fd)"
  unfolding rb_sp_set_nonblock_def by (intro total_intros)

lemma region_fails:
  assumes V: "vm_calm \<mu> V" and m: "m s = Some (Inr r, u)" "\<mu> (env u) < \<mu> (env s)"
    and "rb_sp_fd_region V m fd s = Some (Inr q, t)"
  shows "\<mu> (env t) < \<mu> (env s)"
proof -
  from assms(4) m(1) have t: "t = u\<lparr>env := (snd (vm_check_ints V (env u)))\<lparr>errno := errno (env u)\<rparr>\<rparr>"
    unfolding rb_sp_fd_region_def by (auto elim: without_gvl_Inr)
  have "\<mu> (env t) \<le> \<mu> (env u)" using V by (simp add: t vm_calm_def)
  with m(2) show ?thesis by simp
qed

lemma region_write_fails:
  assumes V: "vm_calm \<mu> V" and F: "failures_bounded \<mu> F"
    and run: "rb_sp_fd_region V (write_u64 F fd v) fd' s = Some (Inr n, t)" and "n < 0" "would_block (errno (env t))"
  shows "\<mu> (env t) < \<mu> (env s)"
proof -
  obtain u where u: "write_u64 F fd v s = Some (Inr n, u)" "errno (env t) = errno (env u)"
    using run unfolding rb_sp_fd_region_def by (auto elim: without_gvl_Inr)
  obtain r e' where r: "sys_write F fd (le_bytes 8 v) (env s) = (r, e')" by fastforce
  from u \<open>n < 0\<close> r obtain er where "r = Inl er" "u = s\<lparr>env := e'\<lparr>errno := er\<rparr>\<rparr>"
    by (cases r) (auto simp: write_u64_def syscall_def envE_def set_errno_def run_simps)
  with F r u(2) assms(5) V have "\<mu> (env u) < \<mu> (env s)" by (auto simp: failures_bounded_def vm_calm_def)
  from region_fails [OF V u(1) this run] show ?thesis .
qed

lemma region_read_fails:
  assumes V: "vm_calm \<mu> V" and F: "failures_bounded \<mu> F"
    and run: "rb_sp_fd_region V (read_u64 F fd old) fd' s = Some (Inr n, t)"
    and "fst n < 0" "would_block (errno (env t))"
  shows "\<mu> (env t) < \<mu> (env s)"
proof -
  obtain u where u: "read_u64 F fd old s = Some (Inr n, u)" "errno (env t) = errno (env u)"
    using run unfolding rb_sp_fd_region_def by (auto elim: without_gvl_Inr)
  obtain r e' where r: "sys_read F fd 8 (env s) = (r, e')" by fastforce
  from u \<open>fst n < 0\<close> r obtain er where "r = Inl er" "u = s\<lparr>env := e'\<lparr>errno := er\<rparr>\<rparr>"
    by (cases r) (auto simp: read_u64_def syscall_def envE_def set_errno_def run_simps split: if_splits)
  with F r u(2) assms(5) V have "\<mu> (env u) < \<mu> (env s)" by (auto simp: failures_bounded_def vm_calm_def)
  from region_fails [OF V u(1) this run] show ?thesis .
qed

lemma total_neq: "\<exists>r t. m s = Some (r, t) \<Longrightarrow> m s \<noteq> None"
  by auto

text \<open>A descriptor that is busy a given number of times.\<close>

definition sample_busy :: "nat file_sys" where
  "sample_busy = \<lparr>sys_read = (\<lambda>fd n. after_interrupts (le_bytes (min n 8) (7 :: 64 word))),
     sys_write = (\<lambda>fd bs. after_interrupts (length bs))\<rparr>"

definition sample_left :: "nat env \<Rightarrow> nat" where
  "sample_left e = kern e"

lemma sample_busy_ok:
  "vm_calm sample_left sample_vm" "waits (vm_io_wait_readable sample_vm)" "waits (vm_io_wait_writable sample_vm)"
  "failures_bounded sample_left sample_busy" "read_bounded sample_busy"
  by (auto simp: vm_calm_def waits_def failures_bounded_def read_bounded_def sample_defs sample_busy_def
      sample_left_def would_block_def split: if_splits)

end
