(* ===== verification/SP_Eventfd.thy ===== *)
theory SP_Eventfd
  imports SP_Fileio SP_Define
begin

text \<open>
  eventfd.c: the \<open>SleepyPenguin::EventFD\<close> class.  \<open>incr\<close> and \<open>value\<close> are instances of the waiting
  loop of \<open>SP_Fileio\<close>.  Against a kernel that keeps a counter as \<open>eventfd(2)\<close> documents, they add to
  the counter and take its value; they give up quietly exactly when a non-blocking caller would
  have to wait.
\<close>

section \<open>Definitions\<close>

record 'k eventfd_sys =
  sys_eventfd :: "32 word \<Rightarrow> 32 word \<Rightarrow> 'k env \<Rightarrow> (errno + int) \<times> 'k env"

definition EFD_CLOEXEC :: "32 word" where "EFD_CLOEXEC = 0x80000"

definition eventfd_open :: "'k vm \<Rightarrow> 'k eventfd_sys \<Rightarrow> 32 word \<Rightarrow> 32 word \<Rightarrow> ('k, int) M" where
  "eventfd_open V E initval flags =
     bindE (syscall (sys_eventfd E initval flags)) (\<lambda>fd. case fd of
         Some n \<Rightarrow> ret n
       | None \<Rightarrow>
           bindE get_errno (\<lambda>err.
           bindE (rb_sp_gc_for_fd V err) (\<lambda>again.
           bindE (if again then syscall (sys_eventfd E initval flags) else ret None) (\<lambda>fd.
           case fd of None \<Rightarrow> rb_sys_fail ''eventfd'' | Some n \<Rightarrow> ret n))))"

definition s_new_eventfd :: "'k vm \<Rightarrow> 'k eventfd_sys \<Rightarrow> bool \<Rightarrow> val list \<Rightarrow> ('k, val) M" where
  "s_new_eventfd V E have_cloexec argv =
     bindE (liftE (rb_scan_args 1 1 argv)) (\<lambda>args.
     bindE (liftE (NUM2UINT (args ! 0))) (\<lambda>initval.
     bindE (liftE (rb_sp_get_flags V (VClass cEventFD) (args ! 1) (RB_SP_CLOEXEC have_cloexec EFD_CLOEXEC))) (\<lambda>flags.
     bindE (eventfd_open V E initval flags) (\<lambda>fd.
     rb_call_super_fd V fd))))"

record efd_args =
  efd_fd :: int
  efd_val :: "64 word"

definition efd_write :: "'k file_sys \<Rightarrow> efd_args \<Rightarrow> ('k, int) M" where
  "efd_write F args = write_u64 F (efd_fd args) (efd_val args)"

text \<open>The result and the structure afterwards.\<close>

definition efd_read :: "'k file_sys \<Rightarrow> efd_args \<Rightarrow> ('k, int \<times> efd_args) M" where
  "efd_read F args = bindE (read_u64 F (efd_fd args) (efd_val args)) (\<lambda>r.
     ret (fst r, args\<lparr>efd_val := snd r\<rparr>))"

definition incr_loop :: "'k vm \<Rightarrow> 'k file_sys \<Rightarrow> val \<Rightarrow> val \<Rightarrow> efd_args \<Rightarrow> ('k, val) M" where
  "incr_loop V F self nonblock = loopE (\<lambda>x.
     bindE (rb_sp_fd_region V (efd_write F x) (efd_fd x)) (\<lambda>w.
     if w < 0 then
       bindE get_errno (\<lambda>e.
       if e = EAGAIN \<and> RTEST nonblock then ret (Inr VFalse)
       else bindE (rb_sp_wait V (rb_io_wait_writable V) self) (\<lambda>q.
            if fst q then ret (Inl (x\<lparr>efd_fd := snd q\<rparr>)) else rb_sys_fail ''write(eventfd)''))
     else ret (Inr VTrue)))"

definition incr :: "'k vm \<Rightarrow> 'k file_sys \<Rightarrow> val list \<Rightarrow> val \<Rightarrow> ('k, val) M" where
  "incr V F argv self =
     bindE (liftE (rb_scan_args 1 1 argv)) (\<lambda>args.
     let value = args ! 0; nonblock = args ! 1 in
     bindE (rb_sp_fileno V self) (\<lambda>fd.
     bindE (whenE (RTEST nonblock) (rb_sp_set_nonblock V fd)) (\<lambda>_.
     bindE (liftE (NUM2ULONG value)) (\<lambda>v.
     incr_loop V F self nonblock \<lparr>efd_fd = fd, efd_val = v\<rparr>))))"

definition getvalue_loop :: "'k vm \<Rightarrow> 'k file_sys \<Rightarrow> val \<Rightarrow> val \<Rightarrow> efd_args \<Rightarrow> ('k, val) M" where
  "getvalue_loop V F self nonblock = loopE (\<lambda>x.
     bindE (rb_sp_fd_region V (efd_read F x) (efd_fd x)) (\<lambda>r.
     if fst r < 0 then
       bindE get_errno (\<lambda>e.
       if e = EAGAIN \<and> RTEST nonblock then ret (Inr VNil)
       else bindE (rb_sp_wait V (rb_io_wait_readable V) self) (\<lambda>q.
            if fst q then ret (Inl ((snd r)\<lparr>efd_fd := snd q\<rparr>)) else rb_sys_fail ''read(eventfd)''))
     else ret (Inr (ULL2NUM (efd_val (snd r))))))"

text \<open>\<open>junk\<close> is what the uninitialised \<open>x.val\<close> holds.\<close>

definition getvalue :: "'k vm \<Rightarrow> 'k file_sys \<Rightarrow> 64 word \<Rightarrow> val list \<Rightarrow> val \<Rightarrow> ('k, val) M" where
  "getvalue V F junk argv self =
     bindE (liftE (rb_scan_args 0 1 argv)) (\<lambda>args.
     let nonblock = args ! 0 in
     bindE (rb_sp_fileno V self) (\<lambda>fd.
     bindE (whenE (RTEST nonblock) (rb_sp_set_nonblock V fd)) (\<lambda>_.
     getvalue_loop V F self nonblock \<lparr>efd_fd = fd, efd_val = junk\<rparr>)))"

definition sleepy_penguin_init_eventfd :: "hdr \<Rightarrow> rb_def list" where
  "sleepy_penguin_init_eventfd H =
     [DefModule mSleepyPenguin, DefClass cEventFD, DefSingleton cEventFD ''new'' (-1),
      DefConst cEventFD ''MAX'' (ULL2NUM 0xfffffffffffffffe)]
     @ ifdef H ''EFD_NONBLOCK'' (\<lambda>n. DefConst cEventFD ''NONBLOCK'' (INT2NUM n))
     @ ifdef H ''EFD_CLOEXEC'' (\<lambda>n. DefConst cEventFD ''CLOEXEC'' (INT2NUM n))
     @ ifdef H ''EFD_SEMAPHORE'' (\<lambda>n. DefConst cEventFD ''SEMAPHORE'' (INT2NUM n))
     @ [DefMethod cEventFD ''value'' (-1), DefMethod cEventFD ''incr'' (-1)]"

section \<open>Instances of the interfaces\<close>

interpretation eventfd_fd: fd_source V "sys_eventfd E initval flags" "''eventfd''" "eventfd_open V E initval flags"
  for V E initval flags
  by unfold_locales (simp add: eventfd_open_def)

interpretation incr_retry: wait_retry V self nonblock "vm_io_wait_writable V"
  "\<lambda>x. bindE (rb_sp_fd_region V (efd_write F x) (efd_fd x)) (\<lambda>w. ret (w, x))"
  "\<lambda>x fd. x\<lparr>efd_fd := fd\<rparr>" VFalse "\<lambda>_. VTrue" "''write(eventfd)''" "incr_loop V F self nonblock"
  for V F self nonblock
  by unfold_locales (simp add: incr_loop_def bindE_assoc cong: if_cong)

interpretation value_retry: wait_retry V self nonblock "vm_io_wait_readable V"
  "\<lambda>x. rb_sp_fd_region V (efd_read F x) (efd_fd x)"
  "\<lambda>x fd. x\<lparr>efd_fd := fd\<rparr>" VNil "\<lambda>x. ULL2NUM (efd_val x)" "''read(eventfd)''" "getvalue_loop V F self nonblock"
  for V F self nonblock
  by unfold_locales (simp add: getvalue_loop_def)

section \<open>Against the kernel's counter\<close>

text \<open>
  \<open>eventfd(2)\<close> without EFD_SEMAPHORE: a write adds to the counter unless that would take it past the
  maximum, a read takes the whole value unless it is zero.  A call that cannot go ahead fails with
  EAGAIN if the descriptor is non-blocking; on a blocking descriptor it sleeps, and nothing is
  assumed of how it ends.
\<close>

definition eventfd_counter :: "'k file_sys \<Rightarrow> int \<Rightarrow> ('k env \<Rightarrow> bool) \<Rightarrow> ('k env \<Rightarrow> nat) \<Rightarrow> bool" where
  "eventfd_counter F fd nb cnt \<longleftrightarrow>
     (\<forall>e (v :: 64 word). unat v < 2 ^ 64 - 1 \<longrightarrow> cnt e + unat v < 2 ^ 64 - 1 \<or> nb e \<longrightarrow>
        (\<exists>e'. sys_write F fd (le_bytes 8 v) e = (if cnt e + unat v < 2 ^ 64 - 1 then Inr 8 else Inl EAGAIN, e') \<and>
          cnt e' = (if cnt e + unat v < 2 ^ 64 - 1 then cnt e + unat v else cnt e) \<and> nb e' = nb e)) \<and>
     (\<forall>e. cnt e < 2 ^ 64 - 1 \<longrightarrow> 0 < cnt e \<or> nb e \<longrightarrow>
        (\<exists>e'. sys_read F fd 8 e = (if cnt e = 0 then Inl EAGAIN else Inr (le_bytes 8 (word_of_nat (cnt e) :: 64 word)), e') \<and>
          cnt e' = 0 \<and> nb e' = nb e))"

lemma incr_loop_counts:
  assumes K: "eventfd_counter F fd (nonblocking V fd) cnt" and V: "undisturbed V fd cnt" and v: "unat v < 2 ^ 64 - 1"
    and nb: "RTEST nonblock" "nonblocking V fd (env s)"
  shows "\<exists>e'. incr_loop V F self nonblock \<lparr>efd_fd = fd, efd_val = v\<rparr> s =
      Some (Inr (if cnt (env s) + unat v < 2 ^ 64 - 1 then VTrue else VFalse), s\<lparr>env := e'\<rparr>) \<and>
      cnt e' = (if cnt (env s) + unat v < 2 ^ 64 - 1 then cnt (env s) + unat v else cnt (env s)) \<and> nonblocking V fd e'"
proof -
  let ?fits = "cnt (env s) + unat v < 2 ^ 64 - 1"
  from K v nb(2) obtain e1 where w: "sys_write F fd (le_bytes 8 v) (env s) = (if ?fits then Inr 8 else Inl EAGAIN, e1)"
    and e1: "cnt e1 = (if ?fits then cnt (env s) + unat v else cnt (env s))" "nonblocking V fd e1"
    unfolding eventfd_counter_def by blast
  from undisturbed_write [OF V w] obtain e2
    where a: "rb_sp_fd_region V (write_u64 F fd v) fd s = Some (Inr (if ?fits then 8 else -1), s\<lparr>env := e2\<rparr>)"
      and e2: "cnt e2 = cnt e1" "nonblocking V fd e2" "\<not> ?fits \<longrightarrow> errno e2 = EAGAIN"
    using e1(2) by (auto split: if_splits)
  let ?x = "\<lparr>efd_fd = fd, efd_val = v\<rparr>"
  have run: "bindE (rb_sp_fd_region V (efd_write F ?x) (efd_fd ?x)) (\<lambda>w. ret (w, ?x)) s =
      Some (Inr (if ?fits then 8 else -1, ?x), s\<lparr>env := e2\<rparr>)"
    using a by (simp add: efd_write_def run_simps)
  show ?thesis
  proof (cases ?fits)
    case True
    with incr_retry.loop_done [OF run] e1 e2 show ?thesis by auto
  next
    case False
    with incr_retry.loop_quiet [OF run _ _ nb(1)] e1 e2 show ?thesis by auto
  qed
qed

lemma getvalue_loop_takes:
  assumes K: "eventfd_counter F fd (nonblocking V fd) cnt" and V: "undisturbed V fd cnt"
    and nb: "RTEST nonblock" "nonblocking V fd (env s)" and c: "cnt (env s) < 2 ^ 64 - 1"
  shows "\<exists>e'. getvalue_loop V F self nonblock \<lparr>efd_fd = fd, efd_val = junk\<rparr> s =
      Some (Inr (if cnt (env s) = 0 then VNil else VInt (int (cnt (env s)))), s\<lparr>env := e'\<rparr>) \<and>
      cnt e' = 0 \<and> nonblocking V fd e'"
proof -
  let ?v = "word_of_nat (cnt (env s)) :: 64 word"
  from K c nb(2) obtain e1
    where r: "sys_read F fd 8 (env s) = (if cnt (env s) = 0 then Inl EAGAIN else Inr (le_bytes 8 ?v), e1)"
      and e1: "cnt e1 = 0" "nonblocking V fd e1"
    unfolding eventfd_counter_def by blast
  have v: "uint ?v = int (cnt (env s))" using c by (simp add: unsigned_of_nat take_bit_nat_eq_self flip: uint_nat)
  have bs: "(if cnt (env s) = 0 then Inl EAGAIN else Inr (le_bytes 8 ?v)) = Inr bs \<Longrightarrow> bs = le_bytes 8 ?v" for bs
    by (simp split: if_splits)
  from undisturbed_read [OF V r bs, of junk] obtain e2
    where a: "rb_sp_fd_region V (read_u64 F fd junk) fd s =
        Some (Inr (if cnt (env s) = 0 then (-1, junk) else (8, ?v)), s\<lparr>env := e2\<rparr>)"
      and e2: "cnt e2 = 0" "nonblocking V fd e2" "cnt (env s) = 0 \<longrightarrow> errno e2 = EAGAIN"
    using e1 by (auto split: if_splits)
  let ?x = "\<lparr>efd_fd = fd, efd_val = junk\<rparr>"
  have run: "rb_sp_fd_region V (efd_read F ?x) (efd_fd ?x) s =
      Some (Inr (if cnt (env s) = 0 then (-1, ?x) else (8, ?x\<lparr>efd_val := ?v\<rparr>)), s\<lparr>env := e2\<rparr>)"
    using a by (simp add: efd_read_def rb_sp_fd_region_map run_simps)
  show ?thesis
  proof (cases "cnt (env s) = 0")
    case True
    with value_retry.loop_quiet [of V F ?x s "-1" ?x, OF _ _ _ nb(1)] run e2 show ?thesis by auto
  next
    case False
    with value_retry.loop_done [of V F ?x s 8 "?x\<lparr>efd_val := ?v\<rparr>"] run e2 v show ?thesis by auto
  qed
qed

section \<open>Properties\<close>

text \<open>The prologues of the two methods, for a caller that asks for non-blocking behaviour.\<close>

lemma incr_nonblock:
  assumes "undisturbed V fd f" and "ios (env s) i = IO_open fd" and "0 \<le> v" and "v < 2 ^ 64"
  shows "\<exists>e'. incr V F [VInt v, VTrue] (VFile i) s =
      incr_loop V F (VFile i) VTrue \<lparr>efd_fd = fd, efd_val = of_int v\<rparr> (s\<lparr>env := e'\<rparr>) \<and>
      f e' = f (env s) \<and> nonblocking V fd e'"
proof -
  obtain e' where "rb_sp_set_nonblock V fd s = Some (Inr (), s\<lparr>env := e'\<rparr>)" "f e' = f (env s)" "nonblocking V fd e'"
    using undisturbed_set_nonblock [OF assms(1)] by blast
  moreover have "NUM2ULONG (VInt v) = Inr (of_int v)" using assms(3,4) by (simp add: NUM2ULONG_def num_between_def)
  ultimately show ?thesis using assms(2)
    by (intro exI [of _ e']) (simp add: incr_def rb_scan_args_def run_simps rb_sp_fileno_file RTEST_def)
qed

lemma getvalue_nonblock:
  assumes "undisturbed V fd f" and "ios (env s) i = IO_open fd"
  shows "\<exists>e'. getvalue V F junk [VTrue] (VFile i) s =
      getvalue_loop V F (VFile i) VTrue \<lparr>efd_fd = fd, efd_val = junk\<rparr> (s\<lparr>env := e'\<rparr>) \<and>
      f e' = f (env s) \<and> nonblocking V fd e'"
proof -
  obtain e' where "rb_sp_set_nonblock V fd s = Some (Inr (), s\<lparr>env := e'\<rparr>)" "f e' = f (env s)" "nonblocking V fd e'"
    using undisturbed_set_nonblock [OF assms(1)] by blast
  with assms(2) show ?thesis
    by (intro exI [of _ e']) (simp add: getvalue_def rb_scan_args_def run_simps rb_sp_fileno_file RTEST_def)
qed

text \<open>
  A kernel whose state is one counter and the status flags.  A call that would have to sleep on a
  blocking descriptor is interrupted by a signal.
\<close>

definition sample_eventfd :: "(nat \<times> 32 word) file_sys" where
  "sample_eventfd = (let busy = (\<lambda>e. (if snd (kern e) AND O_NONBLOCK = O_NONBLOCK then EAGAIN else EINTR)) in \<lparr>
     sys_read = (\<lambda>fd n e. if fst (kern e) = 0 then (Inl (busy e), e)
        else (Inr (le_bytes 8 (word_of_nat (fst (kern e)) :: 64 word)), e\<lparr>kern := (0, snd (kern e))\<rparr>)),
     sys_write = (\<lambda>fd bs e. let n = fst (kern e) + unat (le_word bs :: 64 word) in
        if n < 2 ^ 64 - 1 then (Inr 8, e\<lparr>kern := (n, snd (kern e))\<rparr>) else (Inl (busy e), e))\<rparr>)"

lemma sample_eventfd_ok: "eventfd_counter sample_eventfd fd (nonblocking sample_fcntl_vm fd) sample_count"
  by (simp add: eventfd_counter_def sample_eventfd_def sample_count_def sample_nonblocking Let_def)

text \<open>C12: \<open>EventFD#incr\<close> with a true \<open>nonblock\<close> adds its argument to the kernel's counter and returns
  true; if the sum would pass the maximum (EventFD::MAX) it leaves the counter alone and returns
  false (where the comment on the method says nil).  It does so also on a descriptor that was
  blocking: it makes it non-blocking first, and leaves it so, and therefore never sleeps.\<close>

theorem eventfd_incr_adds:
  assumes "eventfd_counter F fd (nonblocking V fd) cnt" and "undisturbed V fd cnt" and "ios (env s) i = IO_open fd"
    and "0 \<le> v" and "v < 2 ^ 64 - 1"
  shows "\<exists>e'. incr V F [VInt v, VTrue] (VFile i) s =
      Some (Inr (if cnt (env s) + nat v < 2 ^ 64 - 1 then VTrue else VFalse), s\<lparr>env := e'\<rparr>) \<and>
      cnt e' = (if cnt (env s) + nat v < 2 ^ 64 - 1 then cnt (env s) + nat v else cnt (env s)) \<and>
      nonblocking V fd e'"
proof -
  have v: "unat (of_int v :: 64 word) = nat v" using assms(4,5)
    by (simp add: unat_eq_nat_uint uint_of_int_small)
  obtain e1 where 1: "incr V F [VInt v, VTrue] (VFile i) s =
      incr_loop V F (VFile i) VTrue \<lparr>efd_fd = fd, efd_val = of_int v\<rparr> (s\<lparr>env := e1\<rparr>)"
    "cnt e1 = cnt (env s)" "nonblocking V fd e1"
    using incr_nonblock [OF assms(2,3,4), of F] assms(5) by auto
  have "unat (of_int v :: 64 word) < 2 ^ 64 - 1" using v assms(4,5) by simp
  from incr_loop_counts [OF assms(1,2) this, of VTrue "s\<lparr>env := e1\<rparr>" "VFile i"] show ?thesis
    unfolding 1(1) v by (simp add: 1(2,3) RTEST_def cong: if_cong)
qed

theorem eventfd_incr_adds_witness:
  "(\<exists>e'. incr sample_fcntl_vm sample_eventfd [VInt 3, VTrue] (VFile 0) (sample_fcntl_st 4) =
      Some (Inr VTrue, (sample_fcntl_st 4)\<lparr>env := e'\<rparr>) \<and> sample_count e' = 7 \<and>
      nonblocking sample_fcntl_vm 5 e') \<and>
   (\<exists>e'. incr sample_fcntl_vm sample_eventfd [VInt 3, VTrue] (VFile 0) (sample_fcntl_st (2 ^ 64 - 2)) =
      Some (Inr VFalse, (sample_fcntl_st (2 ^ 64 - 2))\<lparr>env := e'\<rparr>) \<and> sample_count e' = 2 ^ 64 - 2 \<and>
      nonblocking sample_fcntl_vm 5 e')"
  using eventfd_incr_adds [OF sample_eventfd_ok sample_undisturbed [of 5], of "sample_fcntl_st 4" 0 3]
    eventfd_incr_adds [OF sample_eventfd_ok sample_undisturbed [of 5], of "sample_fcntl_st (2 ^ 64 - 2)" 0 3]
  by (simp add: sample_fcntl_st_simps)

text \<open>C13: \<open>EventFD#value\<close> with a true \<open>nonblock\<close>, on an eventfd that is not a semaphore, returns the
  kernel's counter and resets it to zero, or returns nil if it is zero already; so a value is what
  has been added since the last one.  A blocking descriptor is made non-blocking first, so a zero
  counter gives nil and not a sleeping call.\<close>

theorem eventfd_value_takes:
  assumes "eventfd_counter F fd (nonblocking V fd) cnt" and "undisturbed V fd cnt" and "ios (env s) i = IO_open fd"
    and "cnt (env s) < 2 ^ 64 - 1"
  shows "\<exists>e'. getvalue V F junk [VTrue] (VFile i) s =
      Some (Inr (if cnt (env s) = 0 then VNil else VInt (int (cnt (env s)))), s\<lparr>env := e'\<rparr>) \<and>
      cnt e' = 0 \<and> nonblocking V fd e'"
proof -
  obtain e1 where 1: "getvalue V F junk [VTrue] (VFile i) s =
      getvalue_loop V F (VFile i) VTrue \<lparr>efd_fd = fd, efd_val = junk\<rparr> (s\<lparr>env := e1\<rparr>)"
    "cnt e1 = cnt (env s)" "nonblocking V fd e1"
    using getvalue_nonblock [OF assms(2,3), of F junk] by auto
  from getvalue_loop_takes [OF assms(1,2), of VTrue "s\<lparr>env := e1\<rparr>" "VFile i" junk] assms(4) show ?thesis
    unfolding 1(1) by (simp add: 1(2,3) RTEST_def cong: if_cong)
qed

theorem eventfd_value_takes_witness:
  "(\<exists>e'. getvalue sample_fcntl_vm sample_eventfd 0 [VTrue] (VFile 0) (sample_fcntl_st 4) =
      Some (Inr (VInt 4), (sample_fcntl_st 4)\<lparr>env := e'\<rparr>) \<and> sample_count e' = 0 \<and> nonblocking sample_fcntl_vm 5 e') \<and>
   (\<exists>e'. getvalue sample_fcntl_vm sample_eventfd 0 [VTrue] (VFile 0) (sample_fcntl_st 0) =
      Some (Inr VNil, (sample_fcntl_st 0)\<lparr>env := e'\<rparr>) \<and> sample_count e' = 0 \<and> nonblocking sample_fcntl_vm 5 e')"
  using eventfd_value_takes [OF sample_eventfd_ok sample_undisturbed [of 5], of "sample_fcntl_st 4" 0]
    eventfd_value_takes [OF sample_eventfd_ok sample_undisturbed [of 5], of "sample_fcntl_st 0" 0]
  by (simp add: sample_fcntl_st_simps)

lemma incr_attempt_fails:
  assumes "vm_calm \<mu> V" and "failures_bounded \<mu> F"
    and "bindE (rb_sp_fd_region V (efd_write F x) (efd_fd x)) (\<lambda>w. ret (w, x)) s = Some (Inr (n, x'), t)"
    and "n < 0" and "would_block (errno (env t))"
  shows "\<mu> (env t) < \<mu> (env s)"
  using assms(3)
  by (rule bindE_Inr_cases) (use region_write_fails [OF assms(1,2) _ assms(4,5)] in \<open>auto simp: efd_write_def ret_run\<close>)

lemma value_attempt_fails:
  assumes "vm_calm \<mu> V" and "failures_bounded \<mu> F"
    and "rb_sp_fd_region V (efd_read F x) (efd_fd x) s = Some (Inr (n, x'), t)"
    and "n < 0" and "would_block (errno (env t))"
  shows "\<mu> (env t) < \<mu> (env s)"
  using assms(3) unfolding efd_read_def rb_sp_fd_region_map
  by (rule bindE_Inr_cases) (use region_read_fails [OF assms(1,2) _ _ assms(5)] assms(4) in \<open>auto simp: ret_run\<close>)

text \<open>C26: a blocking \<open>incr\<close> or \<open>value\<close> always ends, with a value or an exception, when the times the
  descriptor is still going to be busy or the call interrupted are bounded; no call fails with an
  assertion or undefined behaviour.\<close>

theorem eventfd_calls_return:
  assumes "vm_calm \<mu> V" and "waits (vm_io_wait_readable V)" and "waits (vm_io_wait_writable V)"
    and "failures_bounded \<mu> F" and "read_bounded F"
  shows "(\<exists>r t. incr V F argv (VFile i) s = Some (r, t) \<and> (\<forall>f. r = Inl f \<longrightarrow> \<not> crash f)) \<and>
    (\<exists>r t. getvalue V F junk argv (VFile i) s = Some (r, t) \<and> (\<forall>f. r = Inl f \<longrightarrow> \<not> crash f))"
proof -
  have "total (incr_loop V F (VFile i) nb x)" for nb x
    unfolding total_def
    by (intro allI total_neq incr_retry.loop_returns [OF assms(1) vm_calm_wait(2) [OF assms(1)] assms(3) _ refl])
      (erule (2) incr_attempt_fails [OF assms(1,4)] | simp add: efd_write_def total_intros)+
  then have "total (incr V F argv (VFile i))" unfolding incr_def Let_def by (intro total_intros)
  moreover have "safe (incr V F argv (VFile i))"
    unfolding incr_def Let_def
    by (intro safe_intros incr_retry.loop_safe) (simp add: efd_write_def safe_intros)
  moreover have "total (getvalue_loop V F (VFile i) nb x)" for nb x
    unfolding total_def
    by (intro allI total_neq value_retry.loop_returns [OF assms(1) vm_calm_wait(1) [OF assms(1)] assms(2) _ refl])
      (erule (2) value_attempt_fails [OF assms(1,4)] | simp add: efd_read_def total_intros)+
  then have "total (getvalue V F junk argv (VFile i))" unfolding getvalue_def Let_def by (intro total_intros)
  moreover have "safe (getvalue V F junk argv (VFile i))"
    unfolding getvalue_def Let_def
    by (intro safe_intros value_retry.loop_safe) (simp add: efd_read_def safe_intros safe_read_u64 [OF assms(5)])
  ultimately show ?thesis by (intro conjI total_safe)
qed

theorem eventfd_calls_return_witness:
  "(\<exists>r t. incr sample_vm sample_busy [VInt 3] (VFile 0) (sample_st 4) = Some (r, t) \<and>
      (\<forall>f. r = Inl f \<longrightarrow> \<not> crash f)) \<and>
   (\<exists>r t. getvalue sample_vm sample_busy 0 [] (VFile 0) (sample_st 4) = Some (r, t) \<and>
      (\<forall>f. r = Inl f \<longrightarrow> \<not> crash f))"
  using eventfd_calls_return [OF sample_busy_ok] by blast

end
