(* ===== verification/SP_Double.thy ===== *)
theory SP_Double
  imports Complex_Main "HOL-Library.Log_Nat"
begin

text \<open>
  The arithmetic of C's \<open>double\<close> as far as the timespec conversions use it: binary64 numbers are
  rationals and every operation rounds its exact result to the nearest such number, ties to even.
  The exponent range is limited below (subnormal numbers), not above: the conversions never come
  near the largest double.  The definitions compute, and the lemmas are the facts of floating
  point that the conversions rest on: monotonicity, the error of half a unit in the last place,
  exactness on the integers below \<open>2 ^ 53\<close>.
\<close>

section \<open>Definitions\<close>

text \<open>The exponent of a positive number: the integer part of its binary logarithm.\<close>

definition ilog2 :: "rat \<Rightarrow> int" where
  "ilog2 x = (case quotient_of x of (p, q) \<Rightarrow>
     let k = int (floorlog 2 (nat p)) - int (floorlog 2 (nat q))
     in if 2 powi k \<le> x then k else k - 1)"

text \<open>The distance between neighbouring doubles around a number.\<close>

definition ulp :: "rat \<Rightarrow> rat" where
  "ulp x = 2 powi (max (ilog2 \<bar>x\<bar> - 52) (- 1074))"

text \<open>The nearest integer, the even one of two.\<close>

definition rne :: "rat \<Rightarrow> int" where
  "rne x = (let f = \<lfloor>x\<rfloor>; d = x - of_int f in
     if d < 1 / 2 then f else if d > 1 / 2 then f + 1 else if even f then f else f + 1)"

text \<open>The nearest double.\<close>

definition rnd :: "rat \<Rightarrow> rat" where
  "rnd x = (if x = 0 then 0 else of_int (rne (x / ulp x)) * ulp x)"

definition is_dbl :: "rat \<Rightarrow> bool" where
  "is_dbl x \<longleftrightarrow> rnd x = x"

section \<open>Rounding to an integer\<close>

lemma rne_int [simp]: "rne (of_int n) = n"
  by (simp add: rne_def)

lemma rne_err: "\<bar>of_int (rne x) - x\<bar> \<le> 1 / 2"
proof -
  have "of_int \<lfloor>x\<rfloor> \<le> x" "x < of_int \<lfloor>x\<rfloor> + 1" by linarith+
  then show ?thesis by (auto simp: rne_def Let_def abs_le_iff)
qed

lemma rne_floor: "\<lfloor>x\<rfloor> \<le> rne x" "rne x \<le> \<lfloor>x\<rfloor> + 1"
  by (simp_all add: rne_def Let_def)

lemma rne_mono: "x \<le> y \<Longrightarrow> rne x \<le> rne y"
proof -
  assume xy: "x \<le> y"
  show ?thesis
  proof (cases "\<lfloor>x\<rfloor> = \<lfloor>y\<rfloor>")
    case True
    with xy show ?thesis by (auto simp: rne_def Let_def)
  next
    case False
    with xy have "\<lfloor>x\<rfloor> + 1 \<le> \<lfloor>y\<rfloor>" using floor_mono [OF xy] by linarith
    with rne_floor(2) [of x] rne_floor(1) [of y] show ?thesis by linarith
  qed
qed

lemma rne_minus: "rne (- x) = - rne x"
proof (cases "x = of_int \<lfloor>x\<rfloor>")
  case True
  then obtain n where "x = of_int n" by blast
  then show ?thesis by (simp flip: of_int_minus)
next
  case False
  have b: "of_int \<lfloor>x\<rfloor> \<le> x" "x < of_int \<lfloor>x\<rfloor> + 1" by linarith+
  with False have "of_int \<lfloor>x\<rfloor> < x" by linarith
  with b have "\<lfloor>- x\<rfloor> = - \<lfloor>x\<rfloor> - 1" by (intro floor_unique) auto
  then show ?thesis by (auto simp: rne_def Let_def)
qed

lemma rne_unique: "\<bar>x - of_int n\<bar> < 1 / 2 \<Longrightarrow> rne x = n"
proof -
  assume "\<bar>x - of_int n\<bar> < 1 / 2"
  with rne_err [of x] have "\<bar>of_int (rne x) - of_int n\<bar> < (1 :: rat)" by linarith
  then show ?thesis by linarith
qed

section \<open>The exponent\<close>

lemma floorlog_bounds:
  assumes "0 < p"
  shows "(2 :: rat) powi (int (floorlog 2 (nat p)) - 1) \<le> of_int p"
    and "of_int p < (2 :: rat) powi int (floorlog 2 (nat p))"
proof -
  define n where "n = nat p"
  have n: "0 < n" "p = int n" using assms by (simp_all add: n_def)
  have b: "2 ^ (floorlog 2 n - 1) \<le> n" "n < 2 ^ floorlog 2 n"
    using n(1) floorlog_bounds [of n 2] by simp_all
  have pos: "0 < floorlog 2 n" using n(1) by (simp add: floorlog_def)
  have "of_nat (2 ^ (floorlog 2 n - 1)) \<le> (of_nat n :: rat)" using b(1) by (simp only: of_nat_le_iff)
  with pos show "(2 :: rat) powi (int (floorlog 2 (nat p)) - 1) \<le> of_int p"
    by (simp add: n power_int_def nat_diff_distrib)
  have "(of_nat n :: rat) < of_nat (2 ^ floorlog 2 n)" using b(2) by (simp only: of_nat_less_iff)
  then show "of_int p < (2 :: rat) powi int (floorlog 2 (nat p))"
    by (simp add: n power_int_def)
qed

lemma ilog2_bounds:
  assumes "0 < x"
  shows "2 powi ilog2 x \<le> x" and "x < 2 powi (ilog2 x + 1)"
proof -
  obtain p q where pq: "quotient_of x = (p, q)" by fastforce
  have q: "0 < q" using quotient_of_denom_pos [OF pq] .
  have x: "x = of_int p / of_int q" by (rule quotient_of_div [OF pq])
  have p: "0 < p" using assms q by (simp add: x zero_less_divide_iff)
  let ?P = "int (floorlog 2 (nat p))" and ?Q = "int (floorlog 2 (nat q))"
  note P = floorlog_bounds [OF p] and Q = floorlog_bounds [OF q]
  have "x < 2 powi ?P / 2 powi (?Q - 1)"
    unfolding x using P(2) Q(1) q p by (intro frac_less) simp_all
  then have hi: "x < 2 powi (?P - ?Q + 1)" by (simp add: power_int_diff power_int_add)
  have "2 powi (?P - 1) / 2 powi ?Q \<le> x"
    unfolding x using P(1) Q(2) q p by (intro frac_le) (simp_all add: less_imp_le)
  then have lo: "2 powi (?P - 1 - ?Q) \<le> x" by (subst power_int_diff) simp_all
  have *: "?P - 1 - ?Q = ?P - ?Q - 1" "?P - ?Q - 1 + 1 = ?P - ?Q" by simp_all
  show "2 powi ilog2 x \<le> x" using lo by (simp add: ilog2_def pq Let_def *)
  show "x < 2 powi (ilog2 x + 1)" using hi by (simp add: ilog2_def pq Let_def not_le *)
qed

lemma powi2_le_iff: "(2 :: rat) powi a \<le> 2 powi b \<longleftrightarrow> a \<le> b"
  by (metis linorder_not_le one_less_numeral_iff power_int_strict_increasing power_int_increasing
      semiring_norm(76) one_le_numeral)

lemma powi2_less_iff: "(2 :: rat) powi a < 2 powi b \<longleftrightarrow> a < b"
  by (simp flip: not_le add: powi2_le_iff)

lemma ilog2_unique: "0 < x \<Longrightarrow> 2 powi k \<le> x \<Longrightarrow> x < 2 powi (k + 1) \<Longrightarrow> ilog2 x = k"
  using ilog2_bounds [of x] by (meson le_less_trans less_le_trans not_less powi2_less_iff order_antisym zle_add1_eq_le)

lemma ilog2_mono: "0 < x \<Longrightarrow> x \<le> y \<Longrightarrow> ilog2 x \<le> ilog2 y"
proof -
  assume x: "0 < x" and xy: "x \<le> y"
  have "2 powi ilog2 x < (2 :: rat) powi (ilog2 y + 1)"
    using ilog2_bounds(1) [OF x] xy ilog2_bounds(2) [of y] x by linarith
  then show ?thesis by (simp add: powi2_less_iff)
qed

lemma ilog2_less: "0 < x \<Longrightarrow> x < 2 powi k \<Longrightarrow> ilog2 x < k"
  using ilog2_bounds(1) [of x] powi2_less_iff le_less_trans by blast

lemma ulp_pos [simp]: "0 < ulp x"
  by (simp add: ulp_def)

lemma ulp_abs: "ulp \<bar>x\<bar> = ulp x" and ulp_minus [simp]: "ulp (- x) = ulp x"
  by (simp_all add: ulp_def)

lemma ulp_le: "0 < x \<Longrightarrow> x < 2 powi k \<Longrightarrow> - 1022 < k \<Longrightarrow> ulp x \<le> 2 powi (k - 53)"
  using ilog2_less [of x k] by (simp add: ulp_def powi2_le_iff)

section \<open>Rounding to a double\<close>

lemma rnd_0 [simp]: "rnd 0 = 0"
  by (simp add: rnd_def)

lemma rnd_minus: "rnd (- x) = - rnd x"
  by (simp add: rnd_def rne_minus flip: minus_divide_left)

lemma rnd_err: "\<bar>rnd x - x\<bar> \<le> ulp x / 2"
proof (cases "x = 0")
  case True
  then show ?thesis using ulp_pos [of 0] by (simp add: less_imp_le)
next
  case False
  have "rnd x - x = (of_int (rne (x / ulp x)) - x / ulp x) * ulp x"
    using less_imp_neq [OF ulp_pos [of x]] False by (simp add: rnd_def field_simps)
  then have "\<bar>rnd x - x\<bar> = \<bar>of_int (rne (x / ulp x)) - x / ulp x\<bar> * ulp x"
    by (simp add: abs_mult less_imp_le)
  also have "\<dots> \<le> 1 / 2 * ulp x" using rne_err by (intro mult_right_mono) (simp_all add: less_imp_le)
  finally show ?thesis by simp
qed

lemma rnd_fix: "x / ulp x = of_int n \<Longrightarrow> rnd x = x"
proof -
  assume n: "x / ulp x = of_int n"
  then have "x = of_int n * ulp x" using ulp_pos [of x] by (simp add: divide_eq_eq less_imp_neq [symmetric])
  with n show "rnd x = x" by (simp add: rnd_def)
qed

text \<open>Rounding one given number, knowing its exponent.\<close>

lemma rnd_eval:
  assumes x: "2 powi k \<le> x" "x < 2 powi (k + 1)" and k: "- 1022 \<le> k"
    and n: "\<bar>x / 2 powi (k - 52) - of_int n\<bar> < 1 / 2"
  shows "rnd x = of_int n * 2 powi (k - 52)"
proof -
  have "0 < (2 :: rat) powi k" by simp
  with x(1) have pos: "0 < x" by linarith
  then have "ilog2 \<bar>x\<bar> = k" using x by (simp add: ilog2_unique)
  moreover have "max (k - 52) (- 1074) = k - 52" using k by simp
  ultimately have "ulp x = 2 powi (k - 52)" by (simp only: ulp_def)
  with pos rne_unique [OF n] show ?thesis by (simp add: rnd_def)
qed

lemma rnd_nonneg: "0 \<le> x \<Longrightarrow> 0 \<le> rnd x"
  using rne_mono [of 0 "x / ulp x"] ulp_pos [of x] rne_int [of 0]
  by (simp add: rnd_def zero_le_mult_iff less_imp_le)

lemma powi2_int: "0 \<le> k \<Longrightarrow> (2 :: rat) powi k = of_int (2 ^ nat k)"
  by (simp add: power_int_def)

text \<open>Within one binade rounding is monotone, and no number is rounded across a power of two.\<close>

lemma rnd_mono_pos:
  assumes x: "0 < x" and xy: "x \<le> y"
  shows "rnd x \<le> rnd y"
proof (cases "ulp x = ulp y")
  case True
  with x xy show ?thesis by (auto simp: rnd_def less_imp_le intro!: mult_right_mono rne_mono divide_right_mono)
next
  case False
  have y: "0 < y" using x xy by simp
  note le = ilog2_mono [OF x xy]
  have "ilog2 x \<noteq> ilog2 y" using False x y by (auto simp: ulp_def)
  with le have lt: "ilog2 x < ilog2 y" by simp
  from False lt have big: "- 1022 < ilog2 y"
    using x y by (auto simp: ulp_def max_def split: if_splits)
  define m :: rat where "m = 2 powi ilog2 y"
  have xm: "x \<le> m"
  proof -
    have "x < 2 powi (ilog2 x + 1)" by (rule ilog2_bounds(2) [OF x])
    also have "\<dots> \<le> m" unfolding m_def powi2_le_iff using lt by simp
    finally show ?thesis by simp
  qed
  have my: "m \<le> y" unfolding m_def by (rule ilog2_bounds(1) [OF y])
  have int: "\<exists>n. m / ulp z = of_int n" if "0 < z" "ilog2 z \<le> ilog2 y" for z
  proof -
    have "m / ulp z = 2 powi (ilog2 y - max (ilog2 z - 52) (- 1074))"
      using that by (simp add: m_def ulp_def power_int_diff)
    moreover have "0 \<le> ilog2 y - max (ilog2 z - 52) (- 1074)" using that big by simp
    ultimately show ?thesis using powi2_int by metis
  qed
  from int [OF x le] obtain n where n: "m / ulp x = of_int n" by blast
  from int [OF y] obtain k where k: "m / ulp y = of_int k" by auto
  have "rne (x / ulp x) \<le> n"
    using rne_mono [of "x / ulp x" "of_int n"] xm by (simp flip: n add: divide_right_mono less_imp_le)
      (metis n divide_right_mono less_imp_le rne_int rne_mono ulp_pos)
  then have "rnd x \<le> of_int n * ulp x" using x by (simp add: rnd_def mult_right_mono less_imp_le)
  also have "\<dots> = m" using n ulp_pos [of x] by (simp add: field_simps)
  also have "\<dots> = of_int k * ulp y" using k ulp_pos [of y] by (simp add: field_simps)
  also have "\<dots> \<le> rnd y"
  proof -
    have "of_int k \<le> y / ulp y" using my by (simp flip: k add: divide_right_mono less_imp_le)
    then have "k \<le> rne (y / ulp y)" using rne_mono by fastforce
    then show ?thesis using y by (simp add: rnd_def mult_right_mono less_imp_le)
  qed
  finally show ?thesis .
qed

lemma rnd_mono: "0 \<le> x \<Longrightarrow> x \<le> y \<Longrightarrow> rnd x \<le> rnd y"
  using rnd_mono_pos [of x y] rnd_nonneg [of y] by (cases "x = 0") auto

text \<open>The integers below \<open>2 ^ 53\<close> are doubles, and so are their halves.\<close>

lemma rnd_dyadic:
  assumes "\<bar>of_int n\<bar> < (2 :: rat) powi (53 - int j)" and "j \<le> 1"
  shows "rnd (of_int n / 2 ^ j) = of_int n / 2 ^ j"
proof (cases "n = 0")
  case False
  let ?x = "of_int n / 2 ^ j :: rat"
  have pos: "0 < \<bar>?x\<bar>" using False by simp
  have small: "\<bar>?x\<bar> < 2 powi (53 - int j)"
  proof -
    have "\<bar>?x\<bar> \<le> \<bar>of_int n\<bar>" by (simp add: divide_le_eq mult_le_cancel_left1)
    with assms(1) show ?thesis by simp
  qed
  have l: "ilog2 \<bar>?x\<bar> < 53 - int j" by (rule ilog2_less [OF pos small])
  define k where "k = - int j - max (ilog2 \<bar>?x\<bar> - 52) (- 1074)"
  have k: "0 \<le> k" using l assms(2) by (simp add: k_def)
  have "?x / ulp ?x = of_int n * 2 powi k"
    by (simp add: ulp_def k_def power_int_diff power_int_minus field_simps)
  also have "\<dots> = of_int (n * 2 ^ nat k)" using powi2_int [OF k] by simp
  finally show ?thesis by (rule rnd_fix)
qed simp

lemma rnd_of_int: "\<bar>n\<bar> < 2 ^ 53 \<Longrightarrow> rnd (of_int n) = of_int n"
  using rnd_dyadic [of n 0] by (simp add: power_int_def)

text \<open>A double of size \<open>2 ^ 52\<close> or more is an integer.\<close>

lemma is_dbl_large:
  assumes "is_dbl x" and "2 ^ 52 \<le> \<bar>x\<bar>"
  shows "x = of_int \<lfloor>x\<rfloor>"
proof -
  have x0: "x \<noteq> 0" "0 < \<bar>x\<bar>" using assms(2) by auto
  have "2 powi 52 \<le> \<bar>x\<bar>" using assms(2) by (simp add: power_int_def)
  then have "2 powi 52 < (2 :: rat) powi (ilog2 \<bar>x\<bar> + 1)"
    using ilog2_bounds(2) [OF x0(2)] by linarith
  then have "52 < ilog2 \<bar>x\<bar> + 1" by (simp only: powi2_less_iff)
  then have "0 \<le> max (ilog2 \<bar>x\<bar> - 52) (- 1074)" by simp
  then have "ulp x = of_int (2 ^ nat (max (ilog2 \<bar>x\<bar> - 52) (- 1074)))"
    unfolding ulp_def by (rule powi2_int)
  moreover have "x = of_int (rne (x / ulp x)) * ulp x" using assms(1) x0 by (simp add: is_dbl_def rnd_def)
  ultimately have "x = of_int (rne (x / ulp x) * 2 ^ nat (max (ilog2 \<bar>x\<bar> - 52) (- 1074)))" by simp
  then show ?thesis by (metis floor_of_int)
qed

end
