(* ===== verification/SP_Timespec.thy ===== *)
theory SP_Timespec
  imports SP_Runtime SP_Double
begin

text \<open>
  value2timespec.h, the conversion between Ruby numbers and \<open>struct timespec\<close> that timers and
  kqueue share, and the \<open>clock_gettime\<close> substitute of missing_clock_gettime.h.  The conversion
  computes in doubles, whose rounding is that of \<open>SP_Double\<close>.  The lemmas give its accuracy, the
  range of its result (which is not always a normalised time) and a round trip.
\<close>

section \<open>Definitions\<close>

text \<open>
  The cast of a double to a 64-bit integer.  Out of range C leaves the result open; it is the
  value the x86-64 instruction gives, the smallest integer.
\<close>

definition to_long :: "rat \<Rightarrow> int" where
  "to_long x = (let n = trunc_rat x in if - (2 ^ 63) \<le> n \<and> n < 2 ^ 63 then n else - (2 ^ 63))"

text \<open>\<open>(long)(d * 1e9 + 0.5)\<close>\<close>

definition frac_nsec :: "rat \<Rightarrow> int" where
  "frac_nsec d = to_long (rnd (rnd (d * 1000000000) + 1 / 2))"

text \<open>
  The branch for a Float: \<open>modf\<close> splits the number exactly into \<open>f\<close> and \<open>d\<close>, and the seconds are
  compared as a double with what the cast made of them.  A cast out of range is undefined in C; the
  model has the value x86-64 processors give, the smallest integer, which the comparison rejects.
\<close>

definition float2timespec :: "rat \<Rightarrow> fail + timespec" where
  "float2timespec orig =
     (let f = of_int (trunc_rat orig); d = orig - f;
          nf = (if d \<ge> 0 then (frac_nsec d, f)
                else let n = frac_nsec (- d) in
                     if n > 0 then (1000000000 - n, rnd (f - 1)) else (n, f));
          sec = to_long (snd nf)
      in if snd nf \<noteq> rnd (of_int sec) then Inl (Raise RangeError)
         else Inr \<lparr>tv_sec = sec, tv_nsec = fst nf\<rparr>)"

text \<open>An infinity or a NaN is never equal to the seconds, so it is out of range.\<close>

definition value2timespec :: "val \<Rightarrow> fail + timespec" where
  "value2timespec num = (case num of
       VInt n \<Rightarrow> map_sum id (\<lambda>n. \<lparr>tv_sec = n, tv_nsec = 0\<rparr>) (NUM2LONG num)
     | VFloat (Fin orig) \<Rightarrow> float2timespec orig
     | VFloat _ \<Rightarrow> Inl (Raise RangeError)
     | _ \<Rightarrow> Inl (Raise (TypeError ''can't convert into timespec'')))"

definition timespec2num :: "timespec \<Rightarrow> val" where
  "timespec2num ts = (if tv_nsec ts = 0 then VInt (tv_sec ts)
     else VFloat (Fin (rnd (rnd (of_int (tv_sec ts)) + rnd (rnd (of_int (tv_nsec ts)) / 1000000000)))))"

text \<open>\<open>gettimeofday\<close> gives seconds and microseconds.\<close>

definition fake_clock_gettime :: "('k env \<Rightarrow> (errno + int \<times> int) \<times> 'k env) \<Rightarrow> ('k, timespec) M" where
  "fake_clock_gettime gettimeofday = bindE (syscall gettimeofday) (\<lambda>r. case r of
       None \<Rightarrow> throw (Abort ''gettimeofday() broke!?'')
     | Some tv \<Rightarrow> ret \<lparr>tv_sec = fst tv, tv_nsec = snd tv * 1000\<rparr>)"

section \<open>The fraction in nanoseconds\<close>

lemma trunc_rat_of_int [simp]: "trunc_rat (of_int n) = n"
  by (simp add: trunc_rat_def)

lemma to_long_nonneg: "0 \<le> x \<Longrightarrow> x < 2 ^ 63 \<Longrightarrow> to_long x = \<lfloor>x\<rfloor>"
proof -
  assume x: "0 \<le> x" "x < 2 ^ 63"
  then have "0 \<le> \<lfloor>x\<rfloor>" "\<lfloor>x\<rfloor> < 2 ^ 63" by (simp, simp add: floor_less_iff)
  then show ?thesis using x(1) by (simp add: to_long_def trunc_rat_def Let_def)
qed

lemma to_long_of_int: "- (2 ^ 63) \<le> n \<Longrightarrow> n < 2 ^ 63 \<Longrightarrow> to_long (of_int n) = n"
  by (simp add: to_long_def Let_def)

lemma rnd_err_below:
  assumes "0 \<le> x" and "x < 2 ^ 30"
  shows "\<bar>rnd x - x\<bar> \<le> 1 / 16777216"
proof (cases "x = 0")
  case False
  then have "ulp x \<le> 2 powi (30 - 53)" using assms by (intro ulp_le) (simp_all add: power_int_def)
  then have "ulp x / 2 \<le> 1 / 16777216" by (simp add: power_int_def power_one_over)
  with rnd_err [of x] show ?thesis by linarith
qed simp

lemma rnd_giga: "rnd 1000000000 = 1000000000" "rnd (1000000000 + 1 / 2) = 1000000000 + 1 / 2"
  using rnd_of_int [of 1000000000] rnd_dyadic [of 2000000001 1] by (simp_all add: power_int_def)

lemma frac_nsec_range:
  assumes "0 \<le> d" and "d < 1"
  shows "0 \<le> frac_nsec d" and "frac_nsec d \<le> 1000000000"
    and "\<bar>of_int (frac_nsec d) - d * 1000000000\<bar> \<le> 1 / 2 + 1 / 8388608"
proof -
  let ?x = "d * 1000000000"
  let ?y = "rnd ?x + 1 / 2"
  have x: "0 \<le> ?x" "?x \<le> 1000000000" using assms by simp_all
  have rx: "0 \<le> rnd ?x" "rnd ?x \<le> 1000000000"
    using rnd_nonneg [OF x(1)] rnd_mono [OF x] by (simp_all add: rnd_giga)
  have y: "0 \<le> ?y" "?y \<le> 1000000000 + 1 / 2" using rx by simp_all
  have ry: "0 \<le> rnd ?y" "rnd ?y \<le> 1000000000 + 1 / 2"
    using rnd_nonneg [OF y(1)] rnd_mono [OF y] by (simp_all only: rnd_giga)
  have n: "frac_nsec d = \<lfloor>rnd ?y\<rfloor>"
    unfolding frac_nsec_def using ry by (intro to_long_nonneg) simp_all
  show "0 \<le> frac_nsec d" using ry by (simp add: n)
  show "frac_nsec d \<le> 1000000000" using ry(2) unfolding n by linarith
  have "\<bar>rnd ?x - ?x\<bar> \<le> 1 / 16777216" "\<bar>rnd ?y - ?y\<bar> \<le> 1 / 16777216"
    using x y by (intro rnd_err_below; simp)+
  then show "\<bar>of_int (frac_nsec d) - d * 1000000000\<bar> \<le> 1 / 2 + 1 / 8388608"
    unfolding n using floor_correct [of "rnd ?y"] by linarith
qed

lemma trunc_split:
  fixes r :: rat
  shows "0 \<le> r \<Longrightarrow> 0 \<le> r - of_int (trunc_rat r) \<and> r - of_int (trunc_rat r) < 1"
    and "r < 0 \<Longrightarrow> r - of_int (trunc_rat r) \<le> 0 \<and> of_int (trunc_rat r) - r < 1"
  by (simp_all add: trunc_rat_def) linarith+

lemma trunc_abs: "\<bar>r\<bar> < of_int m \<Longrightarrow> \<bar>trunc_rat r\<bar> \<le> m"
  by (auto simp: trunc_rat_def abs_le_iff abs_less_iff; linarith)

lemma frac_nsec_0 [simp]: "frac_nsec 0 = 0"
proof -
  have half: "rnd (1 / 2) = 1 / 2" using rnd_dyadic [of 1 1] by (simp add: power_int_def)
  show ?thesis by (simp only: frac_nsec_def mult_zero_left rnd_0 add_0 half) (simp add: to_long_nonneg floor_unique)
qed

lemma rnd_long_min: "rnd (of_int (- (2 ^ 63))) = of_int (- (2 ^ 63))"
proof -
  have "ilog2 (2 ^ 63) = 63" by (rule ilog2_unique) (simp_all add: power_int_def)
  then have "ulp (2 ^ 63) = 2 ^ 11" by (simp add: ulp_def power_int_def)
  then have "rnd (2 ^ 63) = 2 ^ 63" by (intro rnd_fix [of _ "2 ^ 52"]) simp
  then show ?thesis by (simp add: rnd_minus)
qed

lemma trunc_range:
  fixes r :: rat
  shows "- (2 ^ 63) \<le> r \<Longrightarrow> r < 2 ^ 63 \<Longrightarrow> - (2 ^ 63) \<le> trunc_rat r \<and> trunc_rat r < 2 ^ 63"
  by (auto simp: trunc_rat_def floor_less_iff le_floor_iff ceiling_less_iff le_ceiling_iff)

section \<open>Floats\<close>

lemma rnd_trunc:
  assumes "is_dbl r"
  shows "rnd (of_int (trunc_rat r)) = of_int (trunc_rat r)"
proof (cases "2 ^ 52 \<le> \<bar>r\<bar>")
  case True
  then obtain k where "r = of_int k" using is_dbl_large [OF assms] by blast
  with assms show ?thesis by (simp add: is_dbl_def)
next
  case False
  then have "\<bar>trunc_rat r\<bar> < 2 ^ 53" using trunc_abs [of r "2 ^ 52"] by simp
  then show ?thesis by (rule rnd_of_int)
qed

lemma float2timespec_nonneg:
  assumes r: "rnd (of_int (trunc_rat r)) = of_int (trunc_rat r)" "- (2 ^ 63) \<le> r" "r < 2 ^ 63"
    and d: "0 \<le> r - of_int (trunc_rat r)"
  shows "float2timespec r = Inr \<lparr>tv_sec = trunc_rat r, tv_nsec = frac_nsec (r - of_int (trunc_rat r))\<rparr>"
  using trunc_range [OF r(2,3)] r(1) d
  by (simp add: float2timespec_def Let_def to_long_of_int)

lemma float2timespec_neg:
  assumes r: "is_dbl r" "- (2 ^ 63) \<le> r" and d: "r - of_int (trunc_rat r) < 0"
  defines "n \<equiv> frac_nsec (of_int (trunc_rat r) - r)"
  shows "float2timespec r = Inr (if 0 < n then \<lparr>tv_sec = trunc_rat r - 1, tv_nsec = 1000000000 - n\<rparr>
     else \<lparr>tv_sec = trunc_rat r, tv_nsec = n\<rparr>)"
proof -
  let ?k = "trunc_rat r"
  have neg: "r < 0" using d trunc_split(1) [of r] by linarith
  have "\<not> 2 ^ 52 \<le> \<bar>r\<bar>" using is_dbl_large [OF r(1)] d by (metis diff_self less_irrefl trunc_rat_of_int)
  then have "\<bar>?k\<bar> \<le> 2 ^ 52" using trunc_abs [of r "2 ^ 52"] by simp
  then have k: "- (2 ^ 52) \<le> ?k" "?k \<le> 2 ^ 52" by linarith+
  have one: "rnd (of_int ?k - 1) = of_int (?k - 1)" using k rnd_of_int [of "?k - 1"] by simp
  have "to_long (of_int ?k) = ?k" "to_long (of_int (?k - 1)) = ?k - 1" using k by (intro to_long_of_int; simp)+
  moreover have "\<not> 0 \<le> r - of_int ?k" using d by simp
  ultimately show ?thesis using rnd_trunc [OF r(1)] one
    by (simp add: float2timespec_def Let_def n_def)
qed

definition near_second :: "rat \<Rightarrow> timespec \<Rightarrow> bool" where
  "near_second r ts \<longleftrightarrow> 0 \<le> tv_nsec ts \<and> tv_nsec ts \<le> 1000000000 \<and>
     (r < 0 \<longrightarrow> tv_nsec ts < 1000000000) \<and>
     \<bar>of_int (ts_nanos ts) - r * 1000000000\<bar> \<le> 1 / 2 + 1 / 8388608"

lemma float2timespec_ok:
  assumes r: "is_dbl r" "- (2 ^ 63) \<le> r" "r < 2 ^ 63"
  shows "\<exists>ts. float2timespec r = Inr ts \<and> near_second r ts"
proof (cases "0 \<le> r - of_int (trunc_rat r)")
  case True
  let ?d = "r - of_int (trunc_rat r)"
  have d1: "?d < 1" using True trunc_split [of r] by (cases "0 \<le> r") linarith+
  have neg: "?d = 0" if "r < 0" using that True trunc_split(2) [of r] by linarith
  show ?thesis
    unfolding float2timespec_nonneg [OF rnd_trunc [OF r(1)] r(2,3) True] near_second_def
    using frac_nsec_range [OF True d1] neg by (auto simp: ts_nanos_def algebra_simps)
next
  case False
  let ?d = "of_int (trunc_rat r) - r"
  have neg: "r < 0" using False trunc_split(1) [of r] by linarith
  have d: "0 \<le> ?d" "?d < 1" "r - of_int (trunc_rat r) < 0" using False trunc_split(2) [OF neg] by simp_all
  define n where "n = frac_nsec ?d"
  note n = frac_nsec_range [OF d(1,2), folded n_def]
  let ?ts = "if 0 < n then \<lparr>tv_sec = trunc_rat r - 1, tv_nsec = 1000000000 - n\<rparr>
     else \<lparr>tv_sec = trunc_rat r, tv_nsec = n\<rparr>"
  have "of_int (ts_nanos ?ts) - r * 1000000000 = - (of_int n - ?d * 1000000000)"
    using n(1) by (auto simp: ts_nanos_def algebra_simps)
  then have "\<bar>of_int (ts_nanos ?ts) - r * 1000000000\<bar> \<le> 1 / 2 + 1 / 8388608" using n(3) by (simp only: abs_minus)
  moreover have "0 \<le> tv_nsec ?ts" "tv_nsec ?ts < 1000000000" using n(1,2) by auto
  ultimately have "near_second r ?ts" unfolding near_second_def by simp
  then show ?thesis unfolding float2timespec_neg [OF r(1,2) d(3)] n_def [symmetric] by blast
qed

lemma float2timespec_range_error:
  assumes "is_dbl r" and "r < - (2 ^ 63) \<or> 2 ^ 63 \<le> r"
  shows "float2timespec r = Inl (Raise RangeError)"
proof -
  have "r = of_int \<lfloor>r\<rfloor>" using assms by (intro is_dbl_large) auto
  then obtain k where k: "r = of_int k" by blast
  with assms(2) have out: "k < - (2 ^ 63) \<or> 2 ^ 63 \<le> k"
    by (metis of_int_le_iff of_int_less_iff of_int_minus of_int_numeral of_int_power)
  have "to_long r = - (2 ^ 63)" using out by (auto simp: to_long_def k Let_def)
  moreover have "of_int k \<noteq> (of_int (- (2 ^ 63)) :: rat)" using out unfolding of_int_eq_iff by auto
  ultimately show ?thesis using rnd_long_min
    by (simp add: float2timespec_def Let_def k del: of_int_minus of_int_power)
qed

section \<open>There and back\<close>

lemma rnd_err_exp:
  assumes "0 \<le> x" and "x < 2 powi k" and "- 1022 < k"
  shows "\<bar>rnd x - x\<bar> \<le> 2 powi (k - 53) / 2"
  using assms rnd_err [of x] ulp_le [of x k] by (cases "x = 0") (auto simp: less_imp_le)

lemma nanos_as_float:
  assumes sec: "0 \<le> sec" "sec < 2 ^ 22" and nsec: "0 < nsec" "nsec < 1000000000"
  defines "r \<equiv> rnd (rnd (of_int sec) + rnd (rnd (of_int nsec) / 1000000000))"
  shows "of_int sec \<le> r" and "r < of_int sec + 1"
    and "\<bar>(r - of_int sec) * 1000000000 - of_int nsec\<bar> < 1 / 4"
proof -
  let ?q = "of_int nsec / 1000000000 :: rat"
  have q: "0 \<le> ?q" "?q < 1" using nsec by (simp_all add: divide_less_eq)
  have qmax: "?q \<le> 1 - 1 / 1000000000" using nsec by (simp add: field_simps)
  have exact: "rnd (of_int sec) = of_int sec" "rnd (of_int nsec) = of_int nsec"
    using sec nsec by (intro rnd_of_int; simp)+
  have eq: "\<bar>rnd ?q - ?q\<bar> \<le> 1 / 1000000000000"
    using rnd_err_exp [of ?q 0] q by (simp add: power_int_def power_one_over)
  have "of_int sec \<le> (of_int (2 ^ 22 - 1) :: rat)" using sec(2) unfolding of_int_le_iff by simp
  then have "of_int sec \<le> (4194303 :: rat)" by simp
  then have "of_int sec + rnd ?q < 4194304" using eq qmax by linarith
  then have sm: "0 \<le> of_int sec + rnd ?q" "of_int sec + rnd ?q < 2 powi 22"
    using rnd_nonneg [OF q(1)] sec(1) by (simp_all add: power_int_def)
  have "\<bar>r - (of_int sec + rnd ?q)\<bar> \<le> 1 / 4294967296"
    using rnd_err_exp [OF sm] by (simp add: r_def exact power_int_def power_one_over)
  with eq have near: "\<bar>r - of_int sec - ?q\<bar> < 1 / 4000000000" by linarith
  with qmax show "r < of_int sec + 1" by linarith
  have "(r - of_int sec) * 1000000000 - of_int nsec = (r - of_int sec - ?q) * 1000000000" by (simp add: field_simps)
  then have "\<bar>(r - of_int sec) * 1000000000 - of_int nsec\<bar> = \<bar>r - of_int sec - ?q\<bar> * 1000000000"
    by (simp only: abs_mult abs_numeral)
  also have "\<dots> < 1 / 4000000000 * 1000000000" by (rule mult_strict_right_mono [OF near]) simp
  finally show "\<bar>(r - of_int sec) * 1000000000 - of_int nsec\<bar> < 1 / 4" by simp
  have "rnd (of_int sec) \<le> rnd (of_int sec + rnd ?q)"
    by (rule rnd_mono) (use sec rnd_nonneg [OF q(1)] in simp_all)
  then show "of_int sec \<le> r" by (simp add: exact r_def)
qed

lemma float2timespec_exact:
  assumes sec: "0 \<le> sec" "sec < 2 ^ 22" and r: "of_int sec \<le> r" "r < of_int sec + 1"
    and near: "\<bar>(r - of_int sec) * 1000000000 - of_int nsec\<bar> < 1 / 4"
  shows "float2timespec r = Inr \<lparr>tv_sec = sec, tv_nsec = nsec\<rparr>"
proof -
  have r0: "0 \<le> r" using sec r by (meson of_int_0_le_iff order_trans)
  have "\<lfloor>r\<rfloor> = sec" using r by (intro floor_unique) simp_all
  then have tr: "trunc_rat r = sec" using r0 by (simp add: trunc_rat_def)
  have "of_int (sec + 1) \<le> (of_int (2 ^ 63) :: rat)" using sec(2) unfolding of_int_le_iff by simp
  then have small: "r < 2 ^ 63" using r(2) by simp
  have d: "0 \<le> r - of_int sec" "r - of_int sec < 1" using r by simp_all
  have "\<bar>of_int (frac_nsec (r - of_int sec)) - of_int nsec\<bar> < (1 :: rat)"
    using frac_nsec_range(3) [OF d] near by linarith
  then have "frac_nsec (r - of_int sec) = nsec" by linarith
  then show ?thesis
    using float2timespec_nonneg [of r] rnd_of_int [of sec] sec r0 small d by (simp add: tr)
qed

text \<open>The largest double below 1, and what becomes of it.\<close>

lemma is_dbl_below_one: "is_dbl (1 - 1 / 2 ^ 53)"
  using rnd_eval [of "- 1" "1 - 1 / 2 ^ 53" "2 ^ 53 - 1"]
  by (simp add: is_dbl_def power_int_def power_one_over)

lemma frac_nsec_carry: "frac_nsec (1 - 1 / 2 ^ 53) = 1000000000"
proof -
  let ?n = "1000000000 * 2 ^ 23 - 1 :: int"
  have 1: "rnd ((1 - 1 / 2 ^ 53) * 1000000000) = of_int ?n * 2 powi (29 - 52)"
    by (rule rnd_eval) (simp_all add: power_int_def power_one_over)
  have 2: "rnd (of_int ?n * 2 powi (29 - 52) + 1 / 2) = of_int (?n + 2 ^ 22) * 2 powi (29 - 52)"
    by (rule rnd_eval) (simp_all add: power_int_def power_one_over)
  show ?thesis unfolding frac_nsec_def 1 2
    by (subst to_long_nonneg) (simp_all add: power_int_def power_one_over floor_unique)
qed

section \<open>Properties\<close>

text \<open>C21: a Float of any value between the smallest and the largest \<open>time_t\<close> is converted to a
  \<open>timespec\<close> that is within 0.5000002 nanoseconds of it, with \<open>tv_nsec\<close> between 0 and 1000000000,
  and below 1000000000 if the Float is negative; every other finite Float raises RangeError.\<close>

theorem value2timespec_float:
  assumes "is_dbl r"
  shows "if - (2 ^ 63) \<le> r \<and> r < 2 ^ 63
     then \<exists>ts. value2timespec (VFloat (Fin r)) = Inr ts \<and> near_second r ts
     else value2timespec (VFloat (Fin r)) = Inl (Raise RangeError)"
  using float2timespec_ok [OF assms] float2timespec_range_error [OF assms]
  by (auto simp: value2timespec_def not_le not_less)

lemma is_dbl_half: "is_dbl (- 3 / 2)"
  using rnd_dyadic [of "- 3" 1] by (simp add: is_dbl_def power_int_def)

theorem value2timespec_float_witness:
  "is_dbl (- 3 / 2) \<and> (\<exists>ts. value2timespec (VFloat (Fin (- 3 / 2))) = Inr ts \<and> near_second (- 3 / 2) ts)"
  using value2timespec_float [OF is_dbl_half] is_dbl_half by simp

text \<open>C40: a defect: the fraction of a non-negative Float is rounded to nanoseconds without a carry, so
  the largest double below 1 gives \<open>tv_nsec = 1000000000\<close>, which the kernel refuses.\<close>

theorem value2timespec_not_normalised:
  "is_dbl (1 - 1 / 2 ^ 53) \<and>
   value2timespec (VFloat (Fin (1 - 1 / 2 ^ 53))) = Inr \<lparr>tv_sec = 0, tv_nsec = 1000000000\<rparr>"
proof -
  let ?r = "1 - 1 / 2 ^ 53 :: rat"
  have "trunc_rat ?r = 0" by (simp add: trunc_rat_def floor_unique)
  moreover have "frac_nsec ?r = 1000000000" by (rule frac_nsec_carry)
  ultimately have "float2timespec ?r = Inr \<lparr>tv_sec = 0, tv_nsec = 1000000000\<rparr>"
    using float2timespec_nonneg [of ?r] by simp
  then show ?thesis using is_dbl_below_one by (simp add: value2timespec_def)
qed

text \<open>C22: what the timer functions hand out can be handed back: a normalised \<open>timespec\<close> of less than
  \<open>2 ^ 22\<close> seconds (48 days), or of whole seconds, is recovered exactly from its Ruby number.\<close>

theorem timespec_roundtrip:
  assumes "- (2 ^ 63) \<le> sec" and "sec < 2 ^ 63" and "0 \<le> nsec" and "nsec < 1000000000"
    and "nsec = 0 \<or> 0 \<le> sec \<and> sec < 2 ^ 22"
  shows "value2timespec (timespec2num \<lparr>tv_sec = sec, tv_nsec = nsec\<rparr>) = Inr \<lparr>tv_sec = sec, tv_nsec = nsec\<rparr>"
proof (cases "nsec = 0")
  case True
  with assms(1,2) show ?thesis by (simp add: value2timespec_def timespec2num_def NUM2LONG_def num_between_def)
next
  case False
  with assms have s: "0 \<le> sec" "sec < 2 ^ 22" and n: "0 < nsec" "nsec < 1000000000" by auto
  with float2timespec_exact [OF s nanos_as_float [OF s n]] show ?thesis
    by (simp add: value2timespec_def timespec2num_def)
qed

theorem timespec_roundtrip_witness:
  "value2timespec (timespec2num \<lparr>tv_sec = 3, tv_nsec = 250000001\<rparr>) = Inr \<lparr>tv_sec = 3, tv_nsec = 250000001\<rparr>"
  by (rule timespec_roundtrip) simp_all

end
