(* ===== verification/SP_Timerfd.thy ===== *)
theory SP_Timerfd
  imports SP_Fileio SP_Timespec SP_Define
begin

text \<open>
  timerfd.c: the \<open>SleepyPenguin::TimerFD\<close> class.  Reading the expirations is an instance of the
  waiting loop of \<open>SP_Fileio\<close>; arming and reading a timer go through the conversions of
  \<open>SP_Timespec\<close>, so an armed timer can be read back.
\<close>

section \<open>Definitions\<close>

record itimerspec =
  it_interval :: timespec
  it_value :: timespec

record 'k timerfd_sys =
  sys_timerfd_create :: "32 word \<Rightarrow> 32 word \<Rightarrow> 'k env \<Rightarrow> (errno + int) \<times> 'k env"
  sys_timerfd_settime :: "int \<Rightarrow> 32 word \<Rightarrow> itimerspec \<Rightarrow> 'k env \<Rightarrow> (errno + itimerspec) \<times> 'k env"
  sys_timerfd_gettime :: "int \<Rightarrow> 'k env \<Rightarrow> (errno + itimerspec) \<times> 'k env"

definition TFD_CLOEXEC :: "32 word" where "TFD_CLOEXEC = 0x80000"

definition CLOCK_MONOTONIC :: "32 word" where "CLOCK_MONOTONIC = 1"

definition timerfd_open :: "'k vm \<Rightarrow> 'k timerfd_sys \<Rightarrow> 32 word \<Rightarrow> 32 word \<Rightarrow> ('k, int) M" where
  "timerfd_open V T clockid flags =
     bindE (syscall (sys_timerfd_create T clockid flags)) (\<lambda>fd. case fd of
         Some n \<Rightarrow> ret n
       | None \<Rightarrow>
           bindE get_errno (\<lambda>err.
           bindE (rb_sp_gc_for_fd V err) (\<lambda>again.
           bindE (if again then syscall (sys_timerfd_create T clockid flags) else ret None) (\<lambda>fd.
           case fd of None \<Rightarrow> rb_sys_fail ''timerfd_create'' | Some n \<Rightarrow> ret n))))"

definition s_new_timerfd :: "'k vm \<Rightarrow> 'k timerfd_sys \<Rightarrow> bool \<Rightarrow> val list \<Rightarrow> ('k, val) M" where
  "s_new_timerfd V T have_cloexec argv =
     bindE (liftE (rb_scan_args 0 2 argv)) (\<lambda>args.
     let cid = args ! 0; fl = args ! 1 in
     bindE (if cid = VNil then ret CLOCK_MONOTONIC
            else liftE (rb_sp_get_flags V (VClass cTimerFD) cid 0)) (\<lambda>clockid.
     bindE (liftE (rb_sp_get_flags V (VClass cTimerFD) fl (RB_SP_CLOEXEC have_cloexec TFD_CLOEXEC))) (\<lambda>flags.
     bindE (timerfd_open V T clockid flags) (\<lambda>fd.
     rb_call_super_fd V fd))))"

definition itimerspec2ary :: "itimerspec \<Rightarrow> val" where
  "itimerspec2ary its = VArr [timespec2num (it_interval its), timespec2num (it_value its)]"

definition settime :: "'k vm \<Rightarrow> 'k timerfd_sys \<Rightarrow> val \<Rightarrow> val \<Rightarrow> val \<Rightarrow> val \<Rightarrow> ('k, val) M" where
  "settime V T self fl interval value =
     bindE (rb_sp_fileno V self) (\<lambda>fd.
     bindE (liftE (rb_sp_get_flags V self fl 0)) (\<lambda>flags.
     bindE (liftE (value2timespec interval)) (\<lambda>iv.
     bindE (liftE (value2timespec value)) (\<lambda>v.
     bindE (syscall (sys_timerfd_settime T fd flags \<lparr>it_interval = iv, it_value = v\<rparr>)) (\<lambda>r. case r of
         None \<Rightarrow> rb_sys_fail ''timerfd_settime''
       | Some old \<Rightarrow> ret (itimerspec2ary old))))))"

definition gettime :: "'k vm \<Rightarrow> 'k timerfd_sys \<Rightarrow> val \<Rightarrow> ('k, val) M" where
  "gettime V T self =
     bindE (rb_sp_fileno V self) (\<lambda>fd.
     bindE (syscall (sys_timerfd_gettime T fd)) (\<lambda>r. case r of
         None \<Rightarrow> rb_sys_fail ''timerfd_gettime''
       | Some its \<Rightarrow> ret (itimerspec2ary its)))"

text \<open>The descriptor is passed in the buffer that the expirations are read into.\<close>

definition tfd_read :: "'k file_sys \<Rightarrow> 64 word \<Rightarrow> ('k, int \<times> 64 word) M" where
  "tfd_read F buf = read_u64 F (sint (ucast buf :: 32 word)) buf"

text \<open>The loop variables are \<open>fd\<close> and \<open>buf\<close>.\<close>

definition expirations_loop :: "'k vm \<Rightarrow> 'k file_sys \<Rightarrow> val \<Rightarrow> val \<Rightarrow> int \<times> 64 word \<Rightarrow> ('k, val) M" where
  "expirations_loop V F self nonblock = loopE (\<lambda>x.
     bindE (rb_sp_fd_region V (tfd_read F (snd x)) (fst x)) (\<lambda>r.
     if fst r < 0 then
       bindE get_errno (\<lambda>e.
       if e = EAGAIN \<and> RTEST nonblock then ret (Inr VNil)
       else bindE (rb_sp_wait V (rb_io_wait_readable V) self) (\<lambda>q.
            if fst q then ret (Inl (snd q, snd r)) else rb_sys_fail ''read(timerfd)''))
     else ret (Inr (ULL2NUM (snd r)))))"

definition expirations :: "'k vm \<Rightarrow> 'k file_sys \<Rightarrow> val list \<Rightarrow> val \<Rightarrow> ('k, val) M" where
  "expirations V F argv self =
     bindE (rb_sp_fileno V self) (\<lambda>fd.
     bindE (liftE (rb_scan_args 0 1 argv)) (\<lambda>args.
     let nonblock = args ! 0 in
     bindE (whenE (RTEST nonblock) (rb_sp_set_nonblock V fd)) (\<lambda>_.
     expirations_loop V F self nonblock (fd, of_int fd))))"

definition sleepy_penguin_init_timerfd :: "hdr \<Rightarrow> rb_def list" where
  "sleepy_penguin_init_timerfd H =
     [DefModule mSleepyPenguin, DefClass cTimerFD, DefSingleton cTimerFD ''new'' (-1),
      DefConst cTimerFD ''REALTIME'' (as_uint (macro H ''CLOCK_REALTIME'')),
      DefConst cTimerFD ''MONOTONIC'' (as_uint (macro H ''CLOCK_MONOTONIC'')),
      DefConst cTimerFD ''ABSTIME'' (as_uint (macro H ''TFD_TIMER_ABSTIME''))]
     @ ifdef H ''TFD_TIMER_CANCEL_ON_SET'' (\<lambda>n. DefConst cTimerFD ''CANCEL_ON_SET'' (as_uint n))
     @ ifdef H ''TFD_NONBLOCK'' (\<lambda>n. DefConst cTimerFD ''NONBLOCK'' (as_uint n))
     @ ifdef H ''TFD_CLOEXEC'' (\<lambda>n. DefConst cTimerFD ''CLOEXEC'' (as_uint n))
     @ [DefMethod cTimerFD ''settime'' 3, DefMethod cTimerFD ''gettime'' 0,
        DefMethod cTimerFD ''expirations'' (-1)]"

section \<open>Instances of the interfaces\<close>

interpretation timerfd_fd: fd_source V "sys_timerfd_create T clockid flags" "''timerfd_create''"
  "timerfd_open V T clockid flags" for V T clockid flags
  by unfold_locales (simp add: timerfd_open_def)

interpretation expirations_retry: wait_retry V self nonblock "vm_io_wait_readable V"
  "\<lambda>x. bindE (rb_sp_fd_region V (tfd_read F (snd x)) (fst x)) (\<lambda>r. ret (fst r, (fst x, snd r)))"
  "\<lambda>x fd. (fd, snd x)" VNil "\<lambda>x. ULL2NUM (snd x)" "''read(timerfd)''" "expirations_loop V F self nonblock"
  for V F self nonblock
  by unfold_locales (simp add: expirations_loop_def bindE_assoc cong: if_cong)

section \<open>Properties\<close>

text \<open>A time that survives the way through a Ruby number.\<close>

definition ts_short :: "timespec \<Rightarrow> bool" where
  "ts_short ts \<longleftrightarrow> 0 \<le> tv_sec ts \<and> tv_sec ts < 2 ^ 22 \<and> 0 \<le> tv_nsec ts \<and> tv_nsec ts < 1000000000"

lemma value2timespec_timespec2num:
  assumes "ts_short ts"
  shows "value2timespec (timespec2num ts) = Inr ts"
proof (cases "tv_nsec ts = 0")
  case True
  with assms show ?thesis
    by (simp add: ts_short_def value2timespec_def timespec2num_def NUM2LONG_def num_between_def)
next
  case False
  with assms have s: "0 \<le> tv_sec ts" "tv_sec ts < 2 ^ 22" and n: "0 < tv_nsec ts" "tv_nsec ts < 1000000000"
    by (auto simp: ts_short_def)
  with float2timespec_exact [OF s nanos_as_float [OF s n]] show ?thesis
    by (simp add: value2timespec_def timespec2num_def)
qed

text \<open>C23: a timer can be saved and restored: the pair that \<open>gettime\<close> or \<open>settime\<close> returned for a timer,
  given back to \<open>settime\<close>, arms the kernel's timer with exactly the interval and value it stood for
  (times below 48 days), and returns what the kernel then replaces.\<close>

theorem timer_restore:
  assumes "ts_short (it_interval its)" and "ts_short (it_value its)"
    and "itimerspec2ary its = VArr [a, b]" and "ios (env s) i = IO_open fd"
    and "sys_timerfd_settime T fd 0 its (env s) = (Inr old, e')"
  shows "settime V T (VFile i) VNil a b s = Some (Inr (itimerspec2ary old), s\<lparr>env := e'\<rparr>)"
proof -
  from assms(3) have ab: "a = timespec2num (it_interval its)" "b = timespec2num (it_value its)"
    by (simp_all add: itimerspec2ary_def)
  have its: "\<lparr>it_interval = it_interval its, it_value = it_value its\<rparr> = its" by simp
  show ?thesis
    using assms(4,5) unfolding ab
    by (simp add: settime_def run_simps rb_sp_fileno_file rb_sp_get_flags_def its
        value2timespec_timespec2num [OF assms(1)] value2timespec_timespec2num [OF assms(2)] syscall_def envE_def)
qed

definition sample_its :: itimerspec where
  "sample_its = \<lparr>it_interval = \<lparr>tv_sec = 1, tv_nsec = 0\<rparr>, it_value = \<lparr>tv_sec = 0, tv_nsec = 500000000\<rparr>\<rparr>"

definition sample_timerfd :: "nat timerfd_sys" where
  "sample_timerfd = \<lparr>sys_timerfd_create = (\<lambda>c f e. (Inr 7, e)),
     sys_timerfd_settime = (\<lambda>fd f its e. (Inr its, e)), sys_timerfd_gettime = (\<lambda>fd e. (Inr sample_its, e))\<rparr>"

theorem timer_restore_witness:
  "settime sample_vm sample_timerfd (VFile 0) VNil (VInt 1) (timespec2num \<lparr>tv_sec = 0, tv_nsec = 500000000\<rparr>) (sample_st 0) =
     Some (Inr (itimerspec2ary sample_its), sample_st 0)"
proof -
  have "ts_short (it_interval sample_its)" "ts_short (it_value sample_its)"
    by (simp_all add: ts_short_def sample_its_def)
  moreover have "itimerspec2ary sample_its = VArr [VInt 1, timespec2num \<lparr>tv_sec = 0, tv_nsec = 500000000\<rparr>]"
    by (simp add: itimerspec2ary_def sample_its_def timespec2num_def)
  moreover have "sys_timerfd_settime sample_timerfd 5 0 sample_its (env (sample_st 0)) = (Inr sample_its, env (sample_st 0))"
    by (simp add: sample_timerfd_def)
  ultimately show ?thesis
    using timer_restore [of sample_its "VInt 1" "timespec2num \<lparr>tv_sec = 0, tv_nsec = 500000000\<rparr>"
        "sample_st 0" 0 5 sample_timerfd sample_its "env (sample_st 0)" sample_vm]
    by (simp add: sample_st_def sample_env_def)
qed

text \<open>
  \<open>timerfd_create(2)\<close>: a read takes the number of expirations since the last one.  If there were
  none, it fails with EAGAIN on a non-blocking descriptor; on a blocking one it sleeps, and nothing is
  assumed of how it ends.
\<close>

definition timerfd_counter :: "'k file_sys \<Rightarrow> int \<Rightarrow> ('k env \<Rightarrow> bool) \<Rightarrow> ('k env \<Rightarrow> nat) \<Rightarrow> bool" where
  "timerfd_counter F fd nb cnt \<longleftrightarrow> (\<forall>e. cnt e < 2 ^ 64 \<longrightarrow> 0 < cnt e \<or> nb e \<longrightarrow> (\<exists>e'. sys_read F fd 8 e =
     (if cnt e = 0 then Inl EAGAIN else Inr (le_bytes 8 (word_of_nat (cnt e) :: 64 word)), e') \<and>
     cnt e' = 0 \<and> nb e' = nb e))"

lemma tfd_read_fd: "0 \<le> fd \<Longrightarrow> fd < 2 ^ 31 \<Longrightarrow> tfd_read F (of_int fd) = read_u64 F fd (of_int fd)"
  by (simp add: tfd_read_def sint_low_word)

lemma expirations_loop_counts:
  assumes K: "timerfd_counter F fd (nonblocking V fd) cnt" and V: "undisturbed V fd cnt"
    and nb: "RTEST nonblock" "nonblocking V fd (env s)"
    and c: "cnt (env s) < 2 ^ 64" and fd: "0 \<le> fd" "fd < 2 ^ 31"
  shows "\<exists>e'. expirations_loop V F self nonblock (fd, of_int fd) s =
      Some (Inr (if cnt (env s) = 0 then VNil else VInt (int (cnt (env s)))), s\<lparr>env := e'\<rparr>) \<and>
      cnt e' = 0 \<and> nonblocking V fd e'"
proof -
  let ?v = "word_of_nat (cnt (env s)) :: 64 word" and ?z = "cnt (env s) = 0"
  from K c nb(2) obtain e1 where r: "sys_read F fd 8 (env s) = (if ?z then Inl EAGAIN else Inr (le_bytes 8 ?v), e1)"
    and e1: "cnt e1 = 0" "nonblocking V fd e1" unfolding timerfd_counter_def by blast
  have v: "uint ?v = int (cnt (env s))" using c by (simp add: unsigned_of_nat take_bit_nat_eq_self flip: uint_nat)
  have bs: "(if ?z then Inl EAGAIN else Inr (le_bytes 8 ?v)) = Inr bs \<Longrightarrow> bs = le_bytes 8 ?v" for bs
    by (simp split: if_splits)
  from undisturbed_read [OF V r bs, of "of_int fd"] obtain e2
    where a: "rb_sp_fd_region V (read_u64 F fd (of_int fd)) fd s =
        Some (Inr (if ?z then (-1, of_int fd) else (8, ?v)), s\<lparr>env := e2\<rparr>)"
      and e2: "cnt e2 = 0" "nonblocking V fd e2" "?z \<longrightarrow> errno e2 = EAGAIN"
    using e1 by (auto split: if_splits)
  let ?x = "(fd, of_int fd) :: int \<times> 64 word"
  have run: "bindE (rb_sp_fd_region V (tfd_read F (snd ?x)) (fst ?x)) (\<lambda>r. ret (fst r, (fst ?x, snd r))) s =
      Some (Inr (if ?z then (-1, ?x) else (8, (fd, ?v))), s\<lparr>env := e2\<rparr>)"
    using a by (simp add: tfd_read_fd [OF fd] run_simps)
  show ?thesis
  proof (cases ?z)
    case True
    with expirations_retry.loop_quiet [of V F ?x s "-1" ?x, OF _ _ _ nb(1)] run e2 show ?thesis by auto
  next
    case False
    with expirations_retry.loop_done [of V F ?x s 8 "(fd, ?v)"] run e2 v show ?thesis by auto
  qed
qed

text \<open>C14: \<open>TimerFD#expirations\<close> with a true \<open>nonblock\<close> returns the number of expirations since the last
  call and nil if there were none.  A blocking descriptor is made non-blocking first, so a timer
  that has not expired gives nil and not a sleeping call.\<close>

theorem timerfd_expirations_counts:
  assumes "timerfd_counter F fd (nonblocking V fd) cnt" and "undisturbed V fd cnt" and "ios (env s) i = IO_open fd"
    and "0 \<le> fd" and "fd < 2 ^ 31" and "cnt (env s) < 2 ^ 64"
  shows "\<exists>e'. expirations V F [VTrue] (VFile i) s =
      Some (Inr (if cnt (env s) = 0 then VNil else VInt (int (cnt (env s)))), s\<lparr>env := e'\<rparr>) \<and>
      cnt e' = 0 \<and> nonblocking V fd e'"
proof -
  obtain e1 where e1: "rb_sp_set_nonblock V fd s = Some (Inr (), s\<lparr>env := e1\<rparr>)" "cnt e1 = cnt (env s)"
      "nonblocking V fd e1"
    using undisturbed_set_nonblock [OF assms(2)] by blast
  then have "expirations V F [VTrue] (VFile i) s =
      expirations_loop V F (VFile i) VTrue (fd, of_int fd) (s\<lparr>env := e1\<rparr>)"
    using assms(3) by (simp add: expirations_def rb_scan_args_def run_simps rb_sp_fileno_file RTEST_def)
  with expirations_loop_counts [OF assms(1,2) _ _ _ assms(4,5), of VTrue "s\<lparr>env := e1\<rparr>" "VFile i"] assms(6) e1(2,3)
  show ?thesis by (simp add: RTEST_def cong: if_cong)
qed

definition sample_ticking :: "(nat \<times> 32 word) file_sys" where
  "sample_ticking = \<lparr>
     sys_read = (\<lambda>fd n e. if fst (kern e) = 0
        then (Inl (if snd (kern e) AND O_NONBLOCK = O_NONBLOCK then EAGAIN else EINTR), e)
        else (Inr (le_bytes 8 (word_of_nat (fst (kern e)) :: 64 word)), e\<lparr>kern := (0, snd (kern e))\<rparr>)),
     sys_write = (\<lambda>fd bs e. (Inl EINVAL, e))\<rparr>"

lemma sample_ticking_ok: "timerfd_counter sample_ticking fd (nonblocking sample_fcntl_vm fd) sample_count"
  by (simp add: timerfd_counter_def sample_ticking_def sample_count_def sample_nonblocking)

theorem timerfd_expirations_counts_witness:
  "(\<exists>e'. expirations sample_fcntl_vm sample_ticking [VTrue] (VFile 0) (sample_fcntl_st 9) =
      Some (Inr (VInt 9), (sample_fcntl_st 9)\<lparr>env := e'\<rparr>) \<and> sample_count e' = 0 \<and> nonblocking sample_fcntl_vm 5 e') \<and>
   (\<exists>e'. expirations sample_fcntl_vm sample_ticking [VTrue] (VFile 0) (sample_fcntl_st 0) =
      Some (Inr VNil, (sample_fcntl_st 0)\<lparr>env := e'\<rparr>) \<and> sample_count e' = 0 \<and> nonblocking sample_fcntl_vm 5 e')"
  using timerfd_expirations_counts [OF sample_ticking_ok sample_undisturbed [of 5], of "sample_fcntl_st 9" 0]
    timerfd_expirations_counts [OF sample_ticking_ok sample_undisturbed [of 5], of "sample_fcntl_st 0" 0]
  by (simp add: sample_fcntl_st_simps)

section \<open>The descriptor that is looked up again\<close>

text \<open>One round of the loop when no interrupt is pending: it reads from the descriptor in \<open>buf\<close>.\<close>

lemma tfd_round_full:
  assumes "\<And>e. vm_check_ints V e = (None, e)" and "0 \<le> fd" and "fd < 2 ^ 31"
    and "sys_read F fd 8 (env s) = (Inr (le_bytes 8 v), e')"
  shows "rb_sp_fd_region V (tfd_read F (of_int fd)) n s = Some (Inr (8, v), s\<lparr>env := e'\<rparr>)"
  using read_u64_full [of F fd s v e' "of_int fd"] assms
  by (simp add: tfd_read_fd rb_sp_fd_region_def without_gvl_def run_simps get_errno_def set_errno_def envE_def)

lemma tfd_round_fails:
  assumes "\<And>e. vm_check_ints V e = (None, e)" and "0 \<le> fd" and "fd < 2 ^ 31"
    and "sys_read F fd 8 (env s) = (Inl er, e')"
  shows "rb_sp_fd_region V (tfd_read F (of_int fd)) n s = Some (Inr (-1, of_int fd), s\<lparr>env := e'\<lparr>errno := er\<rparr>\<rparr>)"
  using assms
  by (simp add: tfd_read_fd rb_sp_fd_region_def without_gvl_def run_simps get_errno_def set_errno_def envE_def
      read_u64_def syscall_def)

text \<open>C39: a defect: the descriptor that \<open>expirations\<close> looks up again after waiting is not used.  When the
  object has another descriptor after the wait, the retry still reads from the one that was stored
  in \<open>buf\<close> when the method was called: the result is what a read from the old descriptor gives,
  whatever the timer itself would have reported.\<close>

theorem expirations_ignores_new_descriptor:
  fixes v :: "64 word"
  assumes "\<And>e. vm_check_ints V e = (None, e)" and "waits (vm_io_wait_readable V)"
    and "0 \<le> fd" and "fd < 2 ^ 31" and "fd \<noteq> fd'"
    and "ios (env s) i = IO_open fd" and "sys_read F fd 8 (env s) = (Inl er, e1)" and "would_block er"
    and "ios e1 i = IO_open fd1" and "vm_io_wait_readable V fd1 (e1\<lparr>errno := er\<rparr>) = (Inr b, e2)"
    and "ios e2 i = IO_open fd'" and "sys_read F fd 8 e2 = (Inr (le_bytes 8 v), e3)"
  shows "expirations V F [] (VFile i) s = Some (Inr (VInt (uint v)), s\<lparr>env := e3\<rparr>)"
proof -
  let ?t = "s\<lparr>env := e1\<lparr>errno := er\<rparr>\<rparr>" and ?x = "(fd, of_int fd) :: int \<times> 64 word"
  note first = tfd_round_fails [OF assms(1,3,4,7)]
  have "sys_read F fd 8 (env (?t\<lparr>env := e2\<rparr>)) = (Inr (le_bytes 8 v), e3)" using assms(12) by simp
  note second = tfd_round_full [OF assms(1,3,4) this]
  have "expirations V F [] (VFile i) s = expirations_loop V F (VFile i) VNil ?x s"
    using assms(6) by (simp add: expirations_def rb_scan_args_def run_simps rb_sp_fileno_file RTEST_def)
  also have "\<dots> = expirations_loop V F (VFile i) VNil (fd', of_int fd) (?t\<lparr>env := e2\<rparr>)"
    using expirations_retry.loop_again [of V F ?x s "-1" ?x ?t VNil "VFile i" i fd1 b e2 fd']
      assms(2,8-11) first by (simp add: run_simps RTEST_def would_block_def disj_commute)
  also have "\<dots> = Some (Inr (VInt (uint v)), s\<lparr>env := e3\<rparr>)"
    using expirations_retry.loop_done [of V F "(fd', of_int fd)" "?t\<lparr>env := e2\<rparr>" 8 "(fd', v)"] second
    by (simp add: run_simps)
  finally show ?thesis .
qed

text \<open>
  A timer that is interrupted once, while another thread moves the object from descriptor 5 to 6;
  5 is then a counter of somebody else's, at 111.
\<close>

definition sample_moving_vm :: "nat vm" where
  "sample_moving_vm = sample_vm\<lparr>vm_io_wait_readable := (\<lambda>fd e.
     if errno e = EAGAIN \<or> errno e = EINTR then (Inr True, e\<lparr>ios := (ios e)(0 := IO_open 6)\<rparr>) else (Inr False, e))\<rparr>"

definition sample_moving :: "nat file_sys" where
  "sample_moving = \<lparr>
     sys_read = (\<lambda>fd n e. if kern e = 0 then (Inl EINTR, e\<lparr>kern := 1\<rparr>)
        else (Inr (le_bytes 8 (if fd = 5 then 111 else 3 :: 64 word)), e)),
     sys_write = (\<lambda>fd bs e. (Inl EINVAL, e))\<rparr>"

theorem expirations_ignores_new_descriptor_witness:
  "\<exists>e. expirations sample_moving_vm sample_moving [] (VFile 0) (sample_st 0) =
      Some (Inr (VInt 111), (sample_st 0)\<lparr>env := e\<rparr>) \<and> ios e 0 = IO_open 6 \<and>
      fst (sys_read sample_moving 6 8 e) = Inr (le_bytes 8 (3 :: 64 word))"
proof -
  let ?e1 = "sample_env 1 :: nat env"
  let ?e2 = "(sample_env 1)\<lparr>errno := EINTR, ios := (ios ?e1)(0 := IO_open 6)\<rparr>"
  have "vm_check_ints sample_moving_vm e = (None, e)" for e
    by (simp add: sample_moving_vm_def sample_vm_def)
  moreover have "waits (vm_io_wait_readable sample_moving_vm)"
    by (auto simp: waits_def sample_moving_vm_def would_block_def split: if_splits)
  moreover have "sys_read sample_moving 5 8 (env (sample_st 0)) = (Inl EINTR, ?e1)"
    "sys_read sample_moving 5 8 ?e2 = (Inr (le_bytes 8 (111 :: 64 word)), ?e2)"
    by (simp_all add: sample_moving_def sample_st_def sample_env_def)
  moreover have "vm_io_wait_readable sample_moving_vm 5 (?e1\<lparr>errno := EINTR\<rparr>) = (Inr True, ?e2)"
    by (simp add: sample_moving_vm_def)
  moreover have "ios (env (sample_st 0)) 0 = IO_open 5" "ios ?e1 0 = IO_open 5" "ios ?e2 0 = IO_open 6"
    by (simp_all add: sample_st_def sample_env_def)
  ultimately have "expirations sample_moving_vm sample_moving [] (VFile 0) (sample_st 0) =
      Some (Inr (VInt (uint (111 :: 64 word))), (sample_st 0)\<lparr>env := ?e2\<rparr>)"
    by (intro expirations_ignores_new_descriptor [where fd = 5 and fd' = 6 and er = EINTR and ?e1.0 = ?e1 and ?e2.0 = ?e2])
      (simp_all add: would_block_def)
  then show ?thesis
    by (intro exI [of _ ?e2]) (simp add: sample_moving_def sample_env_def)
qed

end
