(* ===== verification/SP_Inotify.thy ===== *)
theory SP_Inotify
  imports SP_Tlsbuf SP_Fileio SP_Define
begin

text \<open>
  inotify.c, the \<open>SleepyPenguin::Inotify\<close> class, and missing_inotify.h.  \<open>take\<close> reads a batch of
  variable-length records into a scratch buffer, decodes it byte by byte, returns the first event
  and queues the others in the object's \<open>@inotify_tmp\<close> array, which later calls drain first.
  The lemmas show that the queue delivers what the kernel wrote, in order; they also show two
  defects of the buffer handling.
\<close>

section \<open>System calls\<close>

record 'k inotify_sys =
  sys_inotify_init1 :: "32 word \<Rightarrow> 'k env \<Rightarrow> (errno + int) \<times> 'k env"
  sys_inotify_init :: "'k env \<Rightarrow> (errno + int) \<times> 'k env"
  sys_inotify_add_watch :: "int \<Rightarrow> string \<Rightarrow> 32 word \<Rightarrow> 'k env \<Rightarrow> (errno + int) \<times> 'k env"
  sys_inotify_rm_watch :: "int \<Rightarrow> 32 word \<Rightarrow> 'k env \<Rightarrow> (errno + int) \<times> 'k env"
  sys_fionread :: "int \<Rightarrow> 'k env \<Rightarrow> (errno + int) \<times> 'k env"

section \<open>missing\_inotify.h\<close>

definition IN_CLOEXEC :: "32 word" where "IN_CLOEXEC = 0x80000"

definition IN_NONBLOCK :: "32 word" where "IN_NONBLOCK = O_NONBLOCK"

text \<open>The macros the header supplies where the system's does not.\<close>

definition missing_inotify :: "hdr \<Rightarrow> hdr" where
  "missing_inotify H name = (case H name of
       Some n \<Rightarrow> Some n
     | None \<Rightarrow> map_of [(''IN_CLOEXEC'', 0x80000), (''IN_NONBLOCK'', uint O_NONBLOCK),
         (''IN_ATTRIB'', 0x00000004), (''IN_ONLYDIR'', 0x01000000), (''IN_DONT_FOLLOW'', 0x02000000),
         (''IN_EXCL_UNLINK'', 0x04000000), (''IN_MASK_ADD'', 0x20000000), (''IN_ONESHOT'', 0x80000000)] name)"

definition fcntl_err :: "'k vm \<Rightarrow> int \<Rightarrow> ('k, 'a) M" where
  "fcntl_err V fd =
     bindE get_errno (\<lambda>tmp.
     bindE (envE (\<lambda>e. ((), vm_close V fd e))) (\<lambda>_.
     bindE (set_errno tmp) (\<lambda>_.
     rb_sys_fail ''fcntl'')))"

definition my_inotify_init1 :: "'k vm \<Rightarrow> 'k inotify_sys \<Rightarrow> 32 word \<Rightarrow> ('k, int option) M" where
  "my_inotify_init1 V I flags =
     bindE (syscall (sys_inotify_init I)) (\<lambda>r. case r of
       None \<Rightarrow> ret None
     | Some fd \<Rightarrow>
         bindE (if flags AND IN_CLOEXEC \<noteq> 0 then syscall (vm_fcntl_setfd V fd 1) else ret (Some ())) (\<lambda>r.
         case r of None \<Rightarrow> fcntl_err V fd | Some _ \<Rightarrow>
         if flags AND IN_NONBLOCK \<noteq> 0 then
           bindE (syscall (vm_fcntl_getfl V fd)) (\<lambda>tmp. case tmp of
             None \<Rightarrow> fcntl_err V fd
           | Some fl \<Rightarrow> bindE (syscall (vm_fcntl_setfl V fd (fl OR O_NONBLOCK))) (\<lambda>r. case r of
               None \<Rightarrow> fcntl_err V fd
             | Some _ \<Rightarrow> ret (Some fd)))
         else ret (Some fd)))"

section \<open>Creation and watches\<close>

definition inotify_open :: "'k vm \<Rightarrow> 'k inotify_sys \<Rightarrow> 32 word \<Rightarrow> ('k, int) M" where
  "inotify_open V I flags =
     bindE (syscall (sys_inotify_init1 I flags)) (\<lambda>fd. case fd of
         Some n \<Rightarrow> ret n
       | None \<Rightarrow>
           bindE get_errno (\<lambda>err.
           bindE (rb_sp_gc_for_fd V err) (\<lambda>again.
           bindE (if again then syscall (sys_inotify_init1 I flags) else ret None) (\<lambda>fd.
           case fd of None \<Rightarrow> rb_sys_fail ''inotify_init1'' | Some n \<Rightarrow> ret n))))"

definition set_tmp :: "nat \<Rightarrow> val list \<Rightarrow> ('k, unit) M" where
  "set_tmp i xs = envE (\<lambda>e. ((), e\<lparr>inotify_tmp := (inotify_tmp e)(i := Some xs)\<rparr>))"

definition s_new_inotify :: "'k vm \<Rightarrow> 'k inotify_sys \<Rightarrow> bool \<Rightarrow> val list \<Rightarrow> ('k, val) M" where
  "s_new_inotify V I have_cloexec argv =
     bindE (liftE (rb_scan_args 0 1 argv)) (\<lambda>args.
     bindE (liftE (rb_sp_get_flags V (VClass cInotify) (args ! 0) (RB_SP_CLOEXEC have_cloexec IN_CLOEXEC))) (\<lambda>flags.
     bindE (inotify_open V I flags) (\<lambda>fd.
     bindE (envX (vm_io_new V fd)) (\<lambda>i.
     bindE (set_tmp i []) (\<lambda>_.
     ret (VFile i))))))"

definition StringValueCStr :: "val \<Rightarrow> fail + string" where
  "StringValueCStr v = (case v of
       VStr x \<Rightarrow> if CHR 0x00 \<in> set x then Inl (Raise (ArgumentError ''string contains null byte'')) else Inr x
     | _ \<Rightarrow> Inl (Raise (TypeError ''no implicit conversion into String'')))"

definition add_watch :: "'k vm \<Rightarrow> 'k inotify_sys \<Rightarrow> val \<Rightarrow> val \<Rightarrow> val \<Rightarrow> ('k, val) M" where
  "add_watch V I self path vmask =
     bindE (rb_sp_fileno V self) (\<lambda>fd.
     bindE (liftE (StringValueCStr path)) (\<lambda>pathname.
     bindE (liftE (rb_sp_get_uflags V self vmask)) (\<lambda>mask.
     bindE (syscall (sys_inotify_add_watch I fd pathname mask)) (\<lambda>rc. case rc of
         None \<Rightarrow> rb_sys_fail ''inotify_add_watch''
       | Some n \<Rightarrow> ret (UINT2NUM (of_int n))))))"

definition rm_watch :: "'k vm \<Rightarrow> 'k inotify_sys \<Rightarrow> val \<Rightarrow> val \<Rightarrow> ('k, val) M" where
  "rm_watch V I self vwd =
     bindE (liftE (NUM2UINT vwd)) (\<lambda>wd.
     bindE (rb_sp_fileno V self) (\<lambda>fd.
     bindE (syscall (sys_inotify_rm_watch I fd wd)) (\<lambda>rc. case rc of
         None \<Rightarrow> rb_sys_fail ''inotify_rm_watch''
       | Some n \<Rightarrow> ret (INT2NUM n))))"

section \<open>Events\<close>

text \<open>\<open>struct inotify_event\<close>: a header of four 32-bit fields and \<open>len\<close> bytes of name, zero-padded.\<close>

record inotify_event =
  ie_wd :: "32 word"
  ie_mask :: "32 word"
  ie_cookie :: "32 word"
  ie_len :: "32 word"
  ie_name :: "8 word list"

definition sizeof_inotify_event :: nat where "sizeof_inotify_event = 16"

definition event_len :: "inotify_event \<Rightarrow> nat" where
  "event_len e = sizeof_inotify_event + unat (ie_len e)"

definition c_string :: "8 word list \<Rightarrow> string" where
  "c_string bs = map (\<lambda>b. char_of (unat b)) (takeWhile (\<lambda>b. b \<noteq> 0) bs)"

definition event_new :: "inotify_event \<Rightarrow> val" where
  "event_new e = VStruct [INT2NUM (sint (ie_wd e)), UINT2NUM (ie_mask e), UINT2NUM (ie_cookie e),
     if ie_len e \<noteq> 0 then VStr (c_string (ie_name e)) else VNil]"

text \<open>
  The record at the start of the unread bytes.  Looking beyond what was read, for a header that
  is cut off or a name that is not terminated, is undefined behaviour.
\<close>

definition event_at :: "8 word list \<Rightarrow> fail + inotify_event" where
  "event_at bs = (if length bs < sizeof_inotify_event then Inl (UB ''event header past the data'')
     else let e = \<lparr>ie_wd = le_word (take 4 bs), ie_mask = le_word (take 4 (drop 4 bs)),
                   ie_cookie = le_word (take 4 (drop 8 bs)), ie_len = le_word (take 4 (drop 12 bs)),
                   ie_name = drop 16 bs\<rparr>
          in if ie_len e \<noteq> 0 \<and> 0 \<notin> set (drop 16 bs) then Inl (UB ''event name past the data'') else Inr e)"

section \<open>Reading\<close>

record inread_args =
  in_self :: val
  in_fd :: int
  in_nonblock_p :: bool
  in_size :: "64 word"
  in_tmp :: nat \<comment> \<open>the object whose \<open>@inotify_tmp\<close> it is\<close>
  in_buf :: "nat option"

definition buf_of :: "inread_args \<Rightarrow> ('k, nat) M" where
  "buf_of args = (case in_buf args of None \<Rightarrow> throw (UB ''null buffer'') | Some p \<Rightarrow> ret p)"

definition inread :: "'k file_sys \<Rightarrow> inread_args \<Rightarrow> ('k, int) M" where
  "inread F args = bindE (buf_of args) (\<lambda>p.
     bindE (syscall (sys_read F (in_fd args) (unat (in_size args)))) (\<lambda>r. case r of
         None \<Rightarrow> ret (-1)
       | Some bs \<Rightarrow> bindE (deref p) (\<lambda>b.
           if length bs \<le> unat (capa b) then bindE (set_ptr p (P_bytes bs)) (\<lambda>_. ret (int (length bs)))
           else throw (UB ''read wrote past the buffer''))))"

definition resize_internal_buffer ::
  "'k vm \<Rightarrow> 'k inotify_sys \<Rightarrow> 64 word \<Rightarrow> inread_args \<Rightarrow> ('k, inread_args) M" where
  "resize_internal_buffer V I line args =
     (if in_size args > 0x10000 then rb_raise (RuntimeError ''path too long'')
      else bindE (syscall (sys_fionread I (in_fd args))) (\<lambda>r. case r of
        None \<Rightarrow> rb_sys_fail ''ioctl(inotify,FIONREAD)''
      | Some newlen \<Rightarrow>
          bindE (if newlen > 0 then
              bindE (rb_sp_puttlsbuf (in_buf args)) (\<lambda>_.
              bindE (rb_sp_gettlsbuf V line (of_int newlen)) (\<lambda>q.
              ret (args\<lparr>in_buf := Some (fst q), in_size := snd q\<rparr>)))
            else ret args) (\<lambda>args.
          if newlen = 0 then ret args
          else rb_raise (RuntimeError ''ioctl(inotify,FIONREAD) returned negative length''))))"

text \<open>
  The loop over the events of a batch: the first one becomes the result, the others are pushed
  to the array.
\<close>

function take_events :: "nat \<Rightarrow> 8 word list \<Rightarrow> val \<Rightarrow> ('k, val) M" where
  "take_events i bs rv = (if bs = [] then ret rv
     else bindE (liftE (event_at bs)) (\<lambda>e.
          bindE (if rv = VNil then ret (event_new e)
                 else bindE (readS (\<lambda>s. inotify_tmp (env s) i)) (\<lambda>tmp. case tmp of
                     None \<Rightarrow> throw (UB ''not an array'')
                   | Some xs \<Rightarrow> bindE (set_tmp i (xs @ [event_new e])) (\<lambda>_. ret rv))) (\<lambda>rv.
          take_events i (drop (event_len e) bs) rv)))"
  by pat_completeness auto
termination
  by (relation "measure (\<lambda>(i, bs, rv). length bs)") (auto simp: event_len_def sizeof_inotify_event_def)

declare take_events.simps [simp del]

definition do_take_loop ::
  "'k vm \<Rightarrow> 'k file_sys \<Rightarrow> 'k inotify_sys \<Rightarrow> 64 word \<Rightarrow> inread_args \<Rightarrow> ('k, val) M" where
  "do_take_loop V F I line = loopE (\<lambda>args.
     bindE (rb_sp_fd_region V (inread F args) (in_fd args)) (\<lambda>r.
     bindE get_errno (\<lambda>e.
     if r = 0 \<or> r < 0 \<and> e = EINVAL then
       bindE (resize_internal_buffer V I line args) (\<lambda>args. ret (Inl args))
     else if r < 0 then
       (if e = EAGAIN \<and> in_nonblock_p args then ret (Inr VNil)
        else bindE (rb_sp_wait V (rb_io_wait_readable V) (in_self args)) (\<lambda>q.
             if \<not> fst q then rb_sys_fail ''read(inotify)'' else ret (Inl (args\<lparr>in_fd := snd q\<rparr>))))
     else
       bindE (buf_of args) (\<lambda>p.
       bindE (deref p) (\<lambda>b. case ptr b of
           P_bytes bs \<Rightarrow>
             bindE (take_events (in_tmp args) (take (nat r) bs) VNil) (\<lambda>rv.
             ret (if rv = VNil then Inl args else Inr rv))
         | _ \<Rightarrow> throw (UB ''buffer was never read into''))))))"

definition do_take ::
  "'k vm \<Rightarrow> 'k file_sys \<Rightarrow> 'k inotify_sys \<Rightarrow> 64 word \<Rightarrow> inread_args \<Rightarrow> ('k, val) M" where
  "do_take V F I line args =
     bindE (rb_sp_gettlsbuf V line (in_size args)) (\<lambda>q.
     do_take_loop V F I line (args\<lparr>in_buf := Some (fst q), in_size := snd q\<rparr>))"

text \<open>
  The argument of the cleanup function is evaluated when \<open>rb_ensure\<close> is called: it is the null
  pointer that \<open>args.buf\<close> has been set to.
\<close>

definition take_inotify ::
  "'k vm \<Rightarrow> 'k file_sys \<Rightarrow> 'k inotify_sys \<Rightarrow> 64 word \<Rightarrow> val list \<Rightarrow> nat \<Rightarrow> ('k, val) M" where
  "take_inotify V F I line argv i =
     bindE (readS (\<lambda>s. inotify_tmp (env s) i)) (\<lambda>tmp. case tmp of
       None \<Rightarrow> throw (UB ''not an array'')
     | Some (x # xs) \<Rightarrow> bindE (set_tmp i xs) (\<lambda>_. ret x)
     | Some [] \<Rightarrow>
         bindE (liftE (rb_scan_args 0 1 argv)) (\<lambda>args.
         let nonblock = args ! 0 in
         bindE (rb_sp_fileno V (VFile i)) (\<lambda>fd.
         bindE (whenE (RTEST nonblock) (rb_sp_set_nonblock V fd)) (\<lambda>_.
         let args = \<lparr>in_self = VFile i, in_fd = fd, in_nonblock_p = RTEST nonblock, in_size = 128,
                     in_tmp = i, in_buf = None\<rparr> in
         rb_ensure (do_take V F I line args) (rb_sp_puttlsbuf (in_buf args))))))"

definition each_inotify ::
  "'k vm \<Rightarrow> 'k file_sys \<Rightarrow> 'k inotify_sys \<Rightarrow> 64 word \<Rightarrow> 'k blk option \<Rightarrow> nat \<Rightarrow> ('k, val) M" where
  "each_inotify V F I line blk i = loopE (\<lambda>_.
     bindE (take_inotify V F I line [] i) (\<lambda>ev.
     bindE (rb_need_block blk) (\<lambda>B.
     bindE (B [ev]) (\<lambda>_.
     ret (Inl ()))))) ()"

section \<open>Names of events\<close>

text \<open>The global \<open>checks\<close> array: symbols and their values, alternating.\<close>

fun events_loop :: "32 word \<Rightarrow> val list \<Rightarrow> fail + val list" where
  "events_loop event_mask (sm # v # rest) = (case NUM2UINT v of
       Inl e \<Rightarrow> Inl e
     | Inr m \<Rightarrow> map_sum id (\<lambda>rv. if event_mask AND m = m then sm # rv else rv)
                    (events_loop event_mask rest))"
| "events_loop event_mask _ = Inr []"

text \<open>The method \<open>mask\<close> of an event is the accessor of its struct's second member.\<close>

definition events :: "val list \<Rightarrow> val \<Rightarrow> fail + val" where
  "events checks self = (case self of
       VStruct (wd # mask' # rest) \<Rightarrow> (case NUM2UINT mask' of
           Inl e \<Rightarrow> Inl e
         | Inr event_mask \<Rightarrow> map_sum id VArr (events_loop event_mask checks))
     | _ \<Rightarrow> Inl (Raise (NameError ''mask'')))"

definition IN :: "hdr \<Rightarrow> string \<Rightarrow> rb_def" where
  "IN H x = DefConst cInotify x (as_uint (macro H (''IN_'' @ x)))"

text \<open>The constants that \<open>IN2\<close> defines and also enters into \<open>checks\<close>.\<close>

definition IN2_names :: "string list" where
  "IN2_names = [''ACCESS'', ''MODIFY'', ''ATTRIB'', ''CLOSE_WRITE'', ''CLOSE_NOWRITE'', ''OPEN'',
     ''MOVED_FROM'', ''MOVED_TO'', ''CREATE'', ''DELETE'', ''DELETE_SELF'', ''MOVE_SELF'',
     ''UNMOUNT'', ''Q_OVERFLOW'', ''IGNORED'', ''ISDIR'']"

definition inotify_checks :: "hdr \<Rightarrow> val list" where
  "inotify_checks H0 = (let H = missing_inotify H0 in
     concat (map (\<lambda>x. [VSym x, as_uint (macro H (''IN_'' @ x))]) IN2_names))"

definition sleepy_penguin_init_inotify :: "hdr \<Rightarrow> rb_def list" where
  "sleepy_penguin_init_inotify H0 = (let H = missing_inotify H0 in
     [DefModule mSleepyPenguin, DefClass cInotify, DefMethod cInotify ''add_watch'' 2,
      DefMethod cInotify ''rm_watch'' 1, DefMethod cInotify ''take'' (-1), DefMethod cInotify ''each'' 0,
      DefClass cEvent, DefMethod cEvent ''events'' 0, DefSingleton cInotify ''new'' (-1),
      IN H ''ALL_EVENTS'']
     @ map (IN H) IN2_names
     @ map (IN H) [''CLOSE'', ''MOVE'', ''ONLYDIR'', ''DONT_FOLLOW'', ''EXCL_UNLINK'', ''MASK_ADD'', ''ONESHOT'']
     @ [DefConst cInotify ''NONBLOCK'' (INT2NUM (macro H ''IN_NONBLOCK'')),
        DefConst cInotify ''CLOEXEC'' (INT2NUM (macro H ''IN_CLOEXEC''))])"

interpretation inotify_fd: fd_source V "sys_inotify_init1 I flags" "''inotify_init1''" "inotify_open V I flags"
  for V I flags
  by unfold_locales (simp add: inotify_open_def)

section \<open>Decoding is the inverse of the kernel's encoding\<close>

text \<open>The bytes of an event as \<open>inotify(7)\<close> lays them out: a name, if present, ends with a NUL.\<close>

definition event_bytes :: "inotify_event \<Rightarrow> 8 word list" where
  "event_bytes e = le_bytes 4 (ie_wd e) @ le_bytes 4 (ie_mask e) @ le_bytes 4 (ie_cookie e) @
     le_bytes 4 (ie_len e) @ ie_name e"

definition event_wf :: "inotify_event \<Rightarrow> bool" where
  "event_wf e \<longleftrightarrow> length (ie_name e) = unat (ie_len e) \<and> (ie_len e \<noteq> 0 \<longrightarrow> 0 \<in> set (ie_name e))"

abbreviation batch_bytes :: "inotify_event list \<Rightarrow> 8 word list" where
  "batch_bytes es \<equiv> concat (map event_bytes es)"

lemma length_event_bytes: "event_wf e \<Longrightarrow> length (event_bytes e) = event_len e"
  by (simp add: event_wf_def event_bytes_def event_len_def sizeof_inotify_event_def)

lemma event_at_bytes:
  assumes "event_wf e"
  shows "event_at (event_bytes e @ rest) = Inr (e\<lparr>ie_name := ie_name e @ rest\<rparr>)"
  using assms by (auto simp: event_at_def event_bytes_def event_wf_def sizeof_inotify_event_def Let_def)

lemma event_new_more: "event_wf e \<Longrightarrow> event_new (e\<lparr>ie_name := ie_name e @ rest\<rparr>) = event_new e"
  by (auto simp: event_new_def event_wf_def c_string_def takeWhile_append1)

lemma event_new_not_nil [simp]: "event_new e \<noteq> VNil"
  by (simp add: event_new_def)

lemma take_events_step:
  assumes "event_wf e"
  shows "take_events i (event_bytes e @ rest) rv =
     bindE (if rv = VNil then ret (event_new e)
        else bindE (readS (\<lambda>s. inotify_tmp (env s) i)) (\<lambda>tmp. case tmp of
            None \<Rightarrow> throw (UB ''not an array'')
          | Some xs \<Rightarrow> bindE (set_tmp i (xs @ [event_new e])) (\<lambda>_. ret rv))) (take_events i rest)"
proof -
  define bs where "bs = event_bytes e @ rest"
  have ne: "bs \<noteq> []"
    using length_event_bytes [OF assms] by (auto simp: bs_def event_len_def sizeof_inotify_event_def)
  have "drop (event_len (e\<lparr>ie_name := ie_name e @ rest\<rparr>)) bs = rest"
    using length_event_bytes [OF assms] by (simp add: bs_def event_len_def)
  with ne event_at_bytes [OF assms, of rest] event_new_more [OF assms, of rest] show ?thesis
    unfolding bs_def [symmetric] by (subst take_events.simps) (simp add: liftE_Inr cong: if_cong)
qed

lemma take_events_queue:
  assumes "\<forall>e \<in> set es. event_wf e" and "inotify_tmp (env s) i = Some xs" and "rv \<noteq> VNil"
  shows "take_events i (batch_bytes es) rv s = Some (Inr rv, s\<lparr>env := (env s)\<lparr>inotify_tmp :=
     (inotify_tmp (env s))(i := Some (xs @ map event_new es))\<rparr>\<rparr>)"
  using assms
proof (induction es arbitrary: xs s)
  case Nil
  then have "(inotify_tmp (env s))(i := Some xs) = inotify_tmp (env s)" by (simp add: fun_upd_idem)
  then show ?case by (subst take_events.simps) (simp add: run_simps)
next
  case (Cons e es)
  let ?t = "s\<lparr>env := (env s)\<lparr>inotify_tmp := (inotify_tmp (env s))(i := Some (xs @ [event_new e]))\<rparr>\<rparr>"
  have "take_events i (batch_bytes (e # es)) rv s = take_events i (batch_bytes es) rv ?t"
    using Cons.prems by (simp add: take_events_step run_simps set_tmp_def envE_def)
  also have "\<dots> = Some (Inr rv, ?t\<lparr>env := (env ?t)\<lparr>inotify_tmp :=
      (inotify_tmp (env ?t))(i := Some ((xs @ [event_new e]) @ map event_new es))\<rparr>\<rparr>)"
    using Cons.prems by (intro Cons.IH) simp_all
  finally show ?case by (simp add: fun_upd_def cong: if_cong)
qed

lemma take_events_batch:
  assumes "\<forall>e \<in> set (e0 # es). event_wf e" and "inotify_tmp (env s) i = Some xs"
  shows "take_events i (batch_bytes (e0 # es)) VNil s = Some (Inr (event_new e0), s\<lparr>env := (env s)\<lparr>inotify_tmp :=
     (inotify_tmp (env s))(i := Some (xs @ map event_new es))\<rparr>\<rparr>)"
  using assms by (simp add: take_events_step take_events_queue)

section \<open>A batch of events\<close>

text \<open>
  \<open>inotify(7)\<close>: \<open>read\<close> hands over the pending events \<open>pend\<close>, encoded, if the buffer has room for them.
\<close>

definition inotify_queue :: "'k file_sys \<Rightarrow> int \<Rightarrow> ('k env \<Rightarrow> inotify_event list) \<Rightarrow> bool" where
  "inotify_queue F fd pend \<longleftrightarrow> (\<forall>e n. pend e \<noteq> [] \<and> length (batch_bytes (pend e)) \<le> n \<longrightarrow>
     (\<exists>e'. sys_read F fd n e = (Inr (batch_bytes (pend e)), e') \<and> inotify_tmp e' = inotify_tmp e))"

definition inotify_view :: "('k env \<Rightarrow> inotify_event list) \<Rightarrow> 'k env \<Rightarrow>
    inotify_event list \<times> (nat \<Rightarrow> val list option)" where
  "inotify_view pend e = (pend e, inotify_tmp e)"

lemma inread_run:
  assumes "sys_read F (in_fd args) (unat (in_size args)) (env s) = (Inr bs, e')"
    and "in_buf args = Some p" and "heap s p = Some b" and "length bs \<le> unat (capa b)"
  shows "inread F args s = Some (Inr (int (length bs)), s\<lparr>env := e', heap := (heap s)(p \<mapsto> b\<lparr>ptr := P_bytes bs\<rparr>)\<rparr>)"
  using assms by (simp add: inread_def buf_of_def syscall_def envE_def deref_def set_ptr_def store_def run_simps)

lemma do_take_loop_batch:
  assumes V: "steady V (inotify_view pend)" and K: "inotify_queue F (in_fd args) pend" and inv: "tls_inv s"
    and args: "in_buf args = Some p" "unat (in_size args) = unat (capa b)" "in_tmp args = i"
    and b: "heap s p = Some b" "buf_type b \<noteq> RB_SP_TLS_READY"
    and tmp: "inotify_tmp (env s) i = Some []" and pend: "pend (env s) = e0 # es"
    and wf: "\<forall>e \<in> set (e0 # es). event_wf e" and fits: "length (batch_bytes (e0 # es)) \<le> unat (capa b)"
  shows "\<exists>t. do_take_loop V F I line args s = Some (Inr (event_new e0), t) \<and>
    inotify_tmp (env t) i = Some (map event_new es) \<and> tls_inv t \<and> lent t = lent s"
proof -
  define bs where "bs = batch_bytes (e0 # es)"
  from K pend fits args(2) obtain e1 where r: "sys_read F (in_fd args) (unat (in_size args)) (env s) = (Inr bs, e1)"
    and e1: "inotify_tmp e1 = inotify_tmp (env s)"
    unfolding inotify_queue_def bs_def by (metis list.distinct(1))
  note run = inread_run [OF r args(1) b(1) fits [folded bs_def]]
  let ?h = "(heap s)(p \<mapsto> b\<lparr>ptr := P_bytes bs\<rparr>)"
  from steady_region [where m = "inread F args", OF V run] obtain e2 where
    a: "without_gvl V (inread F args) s = Some (Inr (int (length bs)), s\<lparr>heap := ?h, env := e2\<rparr>)"
    and e2: "inotify_tmp e2 i = Some []" using e1 tmp by (auto simp: inotify_view_def)
  let ?u = "s\<lparr>heap := ?h, env := e2\<rparr>"
  have pos: "0 < length bs" using length_event_bytes [of e0] wf by (simp add: bs_def event_len_def sizeof_inotify_event_def)
  have ev: "take_events i bs VNil ?u = Some (Inr (event_new e0), ?u\<lparr>env := (env ?u)\<lparr>inotify_tmp :=
      (inotify_tmp (env ?u))(i := Some ([] @ map event_new es))\<rparr>\<rparr>)"
    unfolding bs_def by (rule take_events_batch [OF wf]) (simp add: e2)
  let ?t = "?u\<lparr>env := (env ?u)\<lparr>inotify_tmp := (inotify_tmp (env ?u))(i := Some ([] @ map event_new es))\<rparr>\<rparr>"
  have "do_take_loop V F I line args s = Some (Inr (event_new e0), ?t)"
    unfolding do_take_loop_def
    by (rule loopE_stop) (use a ev pos in \<open>simp add: rb_sp_fd_region_def run_simps get_errno_def buf_of_def args
        deref_def\<close>)
  moreover have fr: "tls_frame {p} s (s\<lparr>heap := ?h\<rparr>)" by (rule store_ptr_frame(2) [OF inv b])
  have "tls_inv (s\<lparr>heap := ?h\<rparr>)" "lent (s\<lparr>heap := ?h\<rparr>) = lent s"
    using tls_frame_inv [OF fr] tls_frame_lent [OF fr] by simp_all
  then have "tls_inv ?t" "lent ?t = lent s" by simp_all
  moreover have "inotify_tmp (env ?t) i = Some (map event_new es)" by simp
  ultimately show ?thesis by blast
qed

lemma take_batch:
  assumes V: "mem_ok V" "steady V (inotify_view pend)" and K: "inotify_queue F fd pend" and inv: "tls_inv s"
    and tmp: "inotify_tmp (env s) i = Some []" and fd: "ios (env s) i = IO_open fd"
    and pend: "pend (env s) = e0 # es" and wf: "\<forall>e \<in> set (e0 # es). event_wf e"
    and fits: "length (batch_bytes (e0 # es)) \<le> 128"
  shows "\<exists>p t. take_inotify V F I line [] i s = Some (Inr (event_new e0), t) \<and>
    inotify_tmp (env t) i = Some (map event_new es) \<and> tls_inv t \<and> p \<notin> lent s \<and> lent t = insert p (lent s)"
proof -
  have "(128 :: 64 word) < UINT32_MAX" by (simp add: UINT32_MAX_def)
  from gettlsbuf_lends [OF V(1) inv this] obtain r u
    where g: "rb_sp_gettlsbuf V line 128 s = Some (Inr r, u)" and l: "lends 128 s r u" by blast
  have "alloc_keeps V (inotify_view pend)" using V(2) by (simp add: steady_def)
  from keepsD [OF keeps_env_gettlsbuf [OF this] g] have u: "pend (env u) = e0 # es" "inotify_tmp (env u) i = Some []"
    using pend tmp by (simp_all add: inotify_view_def)
  from l obtain b where b: "heap u (fst r) = Some b" "128 \<le> (ucast (capa b) :: 64 word)" "snd r = ucast (capa b)"
    by (auto simp: lends_def)
  have "fst r \<in> lent u" using l by (simp add: lends_def)
  with b(1) have b': "buf_type b \<noteq> RB_SP_TLS_READY" by (simp add: lent_def)
  have "unat (128 :: 64 word) \<le> unat (ucast (capa b) :: 64 word)" using b(2) by (simp only: word_le_nat_alt)
  then have big: "length (batch_bytes (e0 # es)) \<le> unat (capa b)"
    using fits by (simp only: unat_ucast_32_64) simp
  let ?a = "\<lparr>in_self = VFile i, in_fd = fd, in_nonblock_p = False, in_size = snd r, in_tmp = i, in_buf = Some (fst r)\<rparr>"
  have "unat (in_size ?a) = unat (capa b)" by (simp add: b(3) unat_ucast_32_64)
  from do_take_loop_batch [where I = I and line = line and args = ?a, OF V(2) _ lends_owned(1) [OF l] _ this _ b(1) b' u(2,1) wf big] K
  obtain t where t: "do_take_loop V F I line ?a u = Some (Inr (event_new e0), t)"
    "inotify_tmp (env t) i = Some (map event_new es)" "tls_inv t" "lent t = lent u" by auto
  have "take_inotify V F I line [] i s = Some (Inr (event_new e0), t)"
    by (simp add: take_inotify_def tmp rb_scan_args_def run_simps rb_sp_fileno_file fd RTEST_def rb_ensure_def
        do_take_def g t(1) rb_sp_puttlsbuf_def Let_def)
  with t l show ?thesis by (auto simp: lends_def)
qed

section \<open>Properties\<close>

text \<open>Taking a number of events in a row.\<close>

primrec takes :: "nat \<Rightarrow> ('k, val) M \<Rightarrow> ('k, val list) M" where
  "takes 0 m = ret []"
| "takes (Suc k) m = bindE m (\<lambda>v. bindE (takes k m) (\<lambda>vs. ret (v # vs)))"

lemma take_queued:
  "inotify_tmp (env s) i = Some (x # xs) \<Longrightarrow> take_inotify V F I line argv i s =
     Some (Inr x, s\<lparr>env := (env s)\<lparr>inotify_tmp := (inotify_tmp (env s))(i := Some xs)\<rparr>\<rparr>)"
  by (simp add: take_inotify_def set_tmp_def envE_def run_simps)

lemma takes_queued:
  "inotify_tmp (env s) i = Some xs \<Longrightarrow>
     \<exists>t. takes (length xs) (take_inotify V F I line argv i) s = Some (Inr xs, t) \<and>
       inotify_tmp (env t) i = Some [] \<and> bufs t = bufs s"
proof (induction xs arbitrary: s)
  case (Cons x xs)
  let ?u = "s\<lparr>env := (env s)\<lparr>inotify_tmp := (inotify_tmp (env s))(i := Some xs)\<rparr>\<rparr>"
  obtain t where "takes (length xs) (take_inotify V F I line argv i) ?u = Some (Inr xs, t)"
    "inotify_tmp (env t) i = Some []" "bufs t = bufs ?u" using Cons.IH [of ?u] by auto
  with take_queued [OF Cons.prems, of V F I line argv] show ?case by (simp add: run_simps)
qed (simp add: run_simps)

text \<open>C9: \<open>Inotify#take\<close> loses, duplicates and reorders nothing: when the kernel hands over a batch of
  pending events, that many calls of \<open>take\<close> return exactly these events (watch descriptor, mask,
  cookie and name as the kernel encoded them), in the kernel's order, and the queue of the object
  is empty again.\<close>

theorem inotify_take_in_order:
  assumes "mem_ok V" and "steady V (inotify_view pend)" and "inotify_queue F fd pend" and "tls_inv s"
    and "inotify_tmp (env s) i = Some []" and "ios (env s) i = IO_open fd"
    and "pend (env s) \<noteq> []" and "\<forall>e \<in> set (pend (env s)). event_wf e"
    and "length (batch_bytes (pend (env s))) \<le> 128"
  shows "\<exists>t. takes (length (pend (env s))) (take_inotify V F I line [] i) s =
      Some (Inr (map event_new (pend (env s))), t) \<and> inotify_tmp (env t) i = Some []"
proof -
  obtain e0 es where pend: "pend (env s) = e0 # es" using assms(7) by (cases "pend (env s)") auto
  from take_batch [OF assms(1-6) pend] assms(8,9) obtain u
    where u: "take_inotify V F I line [] i s = Some (Inr (event_new e0), u)"
      "inotify_tmp (env u) i = Some (map event_new es)" unfolding pend by blast
  from takes_queued [OF u(2), of V F I line "[]"] obtain t
    where "takes (length es) (take_inotify V F I line [] i) u = Some (Inr (map event_new es), t)"
      "inotify_tmp (env t) i = Some []" by auto
  with u(1) show ?thesis by (simp add: pend run_simps)
qed

definition sample_events :: "inotify_event list" where
  "sample_events = [\<lparr>ie_wd = 1, ie_mask = 0x100, ie_cookie = 0, ie_len = 4, ie_name = [102, 111, 111, 0]\<rparr>,
     \<lparr>ie_wd = 1, ie_mask = 0x20, ie_cookie = 0, ie_len = 0, ie_name = []\<rparr>]"

definition sample_pend :: "nat env \<Rightarrow> inotify_event list" where
  "sample_pend e = sample_events"

definition sample_inotify_read :: "nat file_sys" where
  "sample_inotify_read = \<lparr>sys_read = (\<lambda>fd n e. (Inr (batch_bytes sample_events), e)),
     sys_write = (\<lambda>fd bs e. (Inl EINVAL, e))\<rparr>"

definition sample_inotify :: "nat inotify_sys" where
  "sample_inotify = \<lparr>sys_inotify_init1 = (\<lambda>f e. (Inr 5, e)), sys_inotify_init = (\<lambda>e. (Inr 5, e)),
     sys_inotify_add_watch = (\<lambda>fd p m e. (Inr 1, e)), sys_inotify_rm_watch = (\<lambda>fd w e. (Inr 0, e)),
     sys_fionread = (\<lambda>fd e. (Inr 300, e))\<rparr>"

lemma sample_inotify_ok:
  "mem_ok sample_vm" "steady sample_vm (inotify_view sample_pend)" "inotify_queue sample_inotify_read 5 sample_pend"
  "tls_inv (sample_st 0)" "inotify_tmp (env (sample_st 0)) 0 = Some []" "ios (env (sample_st 0)) 0 = IO_open 5"
  "sample_pend (env (sample_st 0)) \<noteq> []" "\<forall>e \<in> set (sample_pend (env (sample_st 0))). event_wf e"
  "length (batch_bytes (sample_pend (env (sample_st 0)))) \<le> 128"
  by (simp_all add: mem_ok_def steady_def alloc_keeps_def inotify_view_def inotify_queue_def tls_inv_def sample_defs sample_pend_def
      sample_events_def sample_inotify_read_def event_wf_def event_bytes_def)

theorem inotify_take_in_order_witness:
  "\<exists>t. takes 2 (take_inotify sample_vm sample_inotify_read sample_inotify 64 [] 0) (sample_st 0) =
      Some (Inr [VStruct [VInt 1, VInt 256, VInt 0, VStr ''foo''], VStruct [VInt 1, VInt 32, VInt 0, VNil]], t)"
proof -
  have "map event_new sample_events =
      [VStruct [VInt 1, VInt 256, VInt 0, VStr ''foo''], VStruct [VInt 1, VInt 32, VInt 0, VNil]]" by code_simp
  moreover have "length sample_events = 2" by (simp add: sample_events_def)
  ultimately show ?thesis
    using inotify_take_in_order [OF sample_inotify_ok, where I = sample_inotify and line = 64] by (auto simp: sample_pend_def)
qed

text \<open>C34: a defect: \<open>take\<close> never gives its scratch buffer back, because the cleanup is registered with
  the null pointer that \<open>args.buf\<close> still is.  After a call that had to read, the buffer it borrowed is
  still marked as lent, although the call is over.\<close>

theorem inotify_take_keeps_buffer:
  assumes "mem_ok V" and "steady V (inotify_view pend)" and "inotify_queue F fd pend" and "tls_inv s"
    and "inotify_tmp (env s) i = Some []" and "ios (env s) i = IO_open fd"
    and "pend (env s) \<noteq> []" and "\<forall>e \<in> set (pend (env s)). event_wf e"
    and "length (batch_bytes (pend (env s))) \<le> 128"
  shows "\<exists>p v t. take_inotify V F I line [] i s = Some (Inr v, t) \<and> p \<notin> lent s \<and> lent t = insert p (lent s)"
proof -
  obtain e0 es where pend: "pend (env s) = e0 # es" using assms(7) by (cases "pend (env s)") auto
  from take_batch [OF assms(1-6) pend] assms(8,9) show ?thesis unfolding pend by blast
qed

theorem inotify_take_keeps_buffer_witness:
  "\<exists>p v t. take_inotify sample_vm sample_inotify_read sample_inotify 64 [] 0 (sample_st 0) = Some (Inr v, t) \<and>
     lent (sample_st 0) = {} \<and> lent t = {p}"
  using inotify_take_keeps_buffer [OF sample_inotify_ok, where I = sample_inotify and line = 64]
  by (auto simp: sample_st_def lent_def)

text \<open>C37: a defect: the buffer can not grow.  When the kernel refuses to read because the next event does
  not fit, and FIONREAD reports how much room it needs, \<open>resize_internal_buffer\<close> borrows a larger
  buffer and then, for want of a return, raises the exception meant for a negative length.\<close>

theorem inotify_resize_raises:
  assumes "mem_ok V" and "tls_inv s" and "in_buf args = Some p" and "p \<in> lent s" and "in_size args \<le> 0x10000"
    and "sys_fionread I (in_fd args) (env s) = (Inr n, e')" and "0 < n" and "n < 2 ^ 31"
  shows "\<exists>t. resize_internal_buffer V I line args s =
    Some (Inl (Raise (RuntimeError ''ioctl(inotify,FIONREAD) returned negative length'')), t)"
proof -
  let ?s = "s\<lparr>env := e'\<rparr>"
  obtain u where u: "rb_sp_puttlsbuf (Some p) ?s = Some (Inr VFalse, u)" "tls_inv u"
    using puttlsbuf_takes_back [of ?s p] assms(2,4) by (auto simp: takes_back_def)
  have "unat (of_int n :: 64 word) = nat n" using assms(7,8) by (simp add: unat_eq_nat_uint uint_of_int_small)
  then have "(of_int n :: 64 word) < UINT32_MAX" using assms(7,8) by (simp add: word_less_nat_alt UINT32_MAX_def)
  from gettlsbuf_lends [OF assms(1) u(2) this] obtain q t
    where g: "rb_sp_gettlsbuf V line (of_int n) u = Some (Inr q, t)" by blast
  have "\<not> in_size args > 0x10000" using assms(5) by (simp add: not_less)
  with g u(1) assms(3,6,7) show ?thesis
    by (simp add: resize_internal_buffer_def syscall_def envE_def run_simps rb_raise_def)
qed

theorem inotify_resize_raises_witness:
  "\<exists>t. resize_internal_buffer sample_vm sample_inotify 64
      \<lparr>in_self = VFile 0, in_fd = 5, in_nonblock_p = False, in_size = 128, in_tmp = 0, in_buf = Some 0\<rparr>
      ((sample_st 0)\<lparr>heap := [0 \<mapsto> \<lparr>capa = 128, buf_type = RB_SP_TLS_INUSE, ptr = P_uninit\<rparr>],
        brk := 1, rb_sp_key := Some 0\<rparr>) =
    Some (Inl (Raise (RuntimeError ''ioctl(inotify,FIONREAD) returned negative length'')), t)"
  by (rule inotify_resize_raises [where p = 0 and n = 300 and e' = "sample_env 0"])
    (simp_all add: sample_inotify_ok, simp_all add: tls_inv_def lent_def sample_inotify_def sample_st_def)

section \<open>Names and masks\<close>

lemma NUM2UINT_as_uint: "NUM2UINT (as_uint n) = Inr (of_int n)"
  by (simp only: as_uint_def NUM2UINT_roundtrip)

lemma events_loop_filter:
  "events_loop em (concat (map (\<lambda>x. [VSym x, as_uint (f x)]) xs)) =
     Inr (map VSym (filter (\<lambda>x. em AND of_int (f x) = of_int (f x)) xs))"
  by (induction xs) (simp_all add: NUM2UINT_as_uint)

lemma events_names:
  "events (inotify_checks H) (event_new e) = Inr (VArr (map VSym (filter (\<lambda>x.
     ie_mask e AND of_int (macro (missing_inotify H) (''IN_'' @ x)) =
       of_int (macro (missing_inotify H) (''IN_'' @ x))) IN2_names)))"
  by (simp add: events_def event_new_def inotify_checks_def Let_def NUM2UINT_roundtrip events_loop_filter)

lemma const_names_IN [simp]: "const_names (map (IN H) xs) = map (Pair cInotify) xs"
  by (induction xs) (simp_all add: IN_def)

lemma inotify_consts_distinct: "distinct (const_names (sleepy_penguin_init_inotify H))"
proof -
  have "const_names (sleepy_penguin_init_inotify H) = map (Pair cInotify) ([''ALL_EVENTS''] @ IN2_names @
      [''CLOSE'', ''MOVE'', ''ONLYDIR'', ''DONT_FOLLOW'', ''EXCL_UNLINK'', ''MASK_ADD'', ''ONESHOT''] @
      [''NONBLOCK'', ''CLOEXEC''])"
    by (simp add: sleepy_penguin_init_inotify_def Let_def IN_def)
  moreover have "distinct ([''ALL_EVENTS''] @ IN2_names @
      [''CLOSE'', ''MOVE'', ''ONLYDIR'', ''DONT_FOLLOW'', ''EXCL_UNLINK'', ''MASK_ADD'', ''ONESHOT''] @
      [''NONBLOCK'', ''CLOEXEC''])" by code_simp
  ultimately show ?thesis by (simp only: distinct_map inj_on_def) simp
qed

lemma inotify_const:
  "x \<in> set IN2_names \<Longrightarrow> defined_const (sleepy_penguin_init_inotify H) cInotify x =
     Some (as_uint (macro (missing_inotify H) (''IN_'' @ x)))"
  by (rule defined_const_distinct [OF inotify_consts_distinct])
    (auto simp: sleepy_penguin_init_inotify_def Let_def IN_def)

lemma and_power_of_two: "(w :: 32 word) AND of_int (2 ^ k) = of_int (2 ^ k) \<longleftrightarrow> bit w k" if "k < 32"
proof -
  have eq: "of_int (2 ^ k) = (push_bit k 1 :: 32 word)" by (simp add: push_bit_eq_mult)
  show ?thesis
  proof
    assume "w AND of_int (2 ^ k) = of_int (2 ^ k)"
    then have "bit (w AND push_bit k 1) k = bit (push_bit k 1 :: 32 word) k" by (simp only: eq)
    with that show "bit w k" by (simp add: bit_and_iff bit_exp_iff)
  next
    assume "bit w k"
    then show "w AND of_int (2 ^ k) = of_int (2 ^ k)"
      unfolding eq by (intro bit_word_eqI) (auto simp: bit_and_iff bit_exp_iff)
  qed
qed

lemma ary_flag_name:
  "vm_const_get V k x = Some (as_uint n) \<Longrightarrow> ary_flag NUM2UINT V k (VSym x) = Inr (of_int n)"
  by (simp add: ary_flag_def Check_Type_Symbol_def rb_const_get_def NUM2UINT_as_uint)

lemma bit_of_int_power_two: "m < 32 \<Longrightarrow> bit (of_int (2 ^ m) :: 32 word) k \<longleftrightarrow> k = m"
  using bit_exp_iff [where 'a = "32 word", of m k] by (auto simp: possible_bit_def)

text \<open>C28: \<open>Event#events\<close> and the flag arguments speak the same language: the symbols it gives for an event,
  passed back as a flags array (as \<open>add_watch\<close> takes them), stand for exactly those bits of the
  event's mask that have a name, given that the header defines the names as single bits.\<close>

theorem inotify_names_roundtrip:
  assumes "\<forall>x. vm_const_get V cInotify x = defined_const (sleepy_penguin_init_inotify H) cInotify x"
    and "\<forall>x \<in> set IN2_names. \<exists>k<32. macro (missing_inotify H) (''IN_'' @ x) = 2 ^ k"
  shows "\<exists>names w. events (inotify_checks H) (event_new e) = Inr (VArr names) \<and>
     rb_sp_get_uflags V (VClass cInotify) (VArr names) = Inr w \<and>
     (\<forall>k. bit w k \<longleftrightarrow> bit (ie_mask e) k \<and> (\<exists>x \<in> set IN2_names. macro (missing_inotify H) (''IN_'' @ x) = 2 ^ k))"
proof -
  let ?m = "\<lambda>x. macro (missing_inotify H) (''IN_'' @ x)"
  let ?has = "\<lambda>x. ie_mask e AND of_int (?m x) = of_int (?m x)"
  let ?names = "map VSym (filter ?has IN2_names)"
  have flag: "ary_flag NUM2UINT V cInotify (VSym x) = Inr (of_int (?m x))" if "x \<in> set IN2_names" for x
    using assms(1) inotify_const [OF that] by (intro ary_flag_name) simp
  have "\<exists>w. uflags_ary V cInotify ?names 0 = Inr w"
    unfolding uflags.collect_total using flag by auto
  then obtain w where w: "uflags_ary V cInotify ?names 0 = Inr w" ..
  have "bit w k \<longleftrightarrow> (\<exists>x \<in> set IN2_names. ?has x \<and> bit (of_int (?m x) :: 32 word) k)" for k
    unfolding uflags.collect_bits [OF w] using flag by auto
  moreover have "?has x \<and> bit (of_int (?m x) :: 32 word) k \<longleftrightarrow> bit (ie_mask e) k \<and> ?m x = 2 ^ k"
    if "x \<in> set IN2_names" for x k
  proof -
    from assms(2) that obtain j where j: "j < 32" "?m x = 2 ^ j" by blast
    then show ?thesis by (auto simp: and_power_of_two bit_of_int_power_two simp del: of_int_power)
  qed
  ultimately have "bit w k \<longleftrightarrow> bit (ie_mask e) k \<and> (\<exists>x \<in> set IN2_names. ?m x = 2 ^ k)" for k by blast
  with w show ?thesis by (auto simp: events_names rb_sp_get_uflags_def klass_for_def)
qed

text \<open>The values of Linux, as far as the names are concerned.\<close>

definition linux_inotify :: hdr where
  "linux_inotify = map_of (zip (map (\<lambda>x. ''IN_'' @ x) IN2_names) [0x1, 0x2, 0x4, 0x8, 0x10, 0x20, 0x40, 0x80,
     0x100, 0x200, 0x400, 0x800, 0x2000, 0x4000, 0x8000, 0x40000000])"

lemma linux_inotify_bits:
  "\<forall>x \<in> set IN2_names. \<exists>k<32. macro (missing_inotify linux_inotify) (''IN_'' @ x) = 2 ^ k"
proof -
  have "map (\<lambda>x. macro (missing_inotify linux_inotify) (''IN_'' @ x)) IN2_names =
      map (\<lambda>k. 2 ^ k) [0, 1, 2, 3, 4, 5, 6, 7, 8, 9, 10, 11, 13, 14, 15, 30]" by code_simp
  then have "(\<lambda>x. macro (missing_inotify linux_inotify) (''IN_'' @ x)) ` set IN2_names =
      (\<lambda>k. 2 ^ k) ` set [0, 1, 2, 3, 4, 5, 6, 7, 8, 9, 10, 11, 13, 14, 15, 30]"
    by (metis set_map)
  moreover have "set [0, 1, 2, 3, 4, 5, 6, 7, 8, 9, 10, 11, 13, 14, 15, 30] \<subseteq> {..<32 :: nat}" by simp
  ultimately show ?thesis by (smt (verit, ccfv_threshold) image_iff lessThan_iff subsetD)
qed

definition sample_inotify_vm :: "nat vm" where
  "sample_inotify_vm = sample_vm\<lparr>vm_const_get := defined_const (sleepy_penguin_init_inotify linux_inotify)\<rparr>"

theorem inotify_names_roundtrip_witness:
  "\<exists>names w. events (inotify_checks linux_inotify) (event_new (hd sample_events)) = Inr (VArr names) \<and>
     rb_sp_get_uflags sample_inotify_vm (VClass cInotify) (VArr names) = Inr w \<and> bit w 8"
proof -
  have "macro (missing_inotify linux_inotify) (''IN_'' @ ''CREATE'') = 2 ^ 8" by code_simp
  moreover have "''CREATE'' \<in> set IN2_names" by (simp add: IN2_names_def)
  moreover have "bit (ie_mask (hd sample_events)) 8" by (simp add: sample_events_def)
  ultimately show ?thesis
    using inotify_names_roundtrip [OF _ linux_inotify_bits, of sample_inotify_vm "hd sample_events"]
    by (fastforce simp: sample_inotify_vm_def)
qed

end
