(* ===== verification/SP_Kqueue.thy ===== *)
theory SP_Kqueue
  imports SP_Tlsbuf SP_Timespec SP_Define
begin

text \<open>
  kqueue.c, the low-level \<open>SleepyPenguin::Kqueue::IO\<close> class.  One scratch buffer holds the changes
  handed to the kernel and then the events it returns, behind the \<open>struct kq_per_thread\<close> header,
  as in the source.  The lemmas here follow that buffer through a call, on every path; what a call
  does with changes, events and time is in \<open>SP_Kevent\<close>.
\<close>

section \<open>System calls\<close>

text \<open>\<open>kevent(fd, changes, nevents, timeout)\<close> gives the events it stores.\<close>

record 'k kqueue_sys =
  sys_kqueue :: "'k env \<Rightarrow> (errno + int) \<times> 'k env"
  sys_kevent :: "int \<Rightarrow> kevent list \<Rightarrow> int \<Rightarrow> timespec option \<Rightarrow> 'k env \<Rightarrow> (errno + kevent list) \<times> 'k env"

section \<open>Time\<close>

definition NANO_PER_SEC :: int where "NANO_PER_SEC = 1000000000"

definition tssub :: "timespec \<Rightarrow> timespec \<Rightarrow> timespec" where
  "tssub a b = (let sec = tv_sec a - tv_sec b; nsec = tv_nsec a - tv_nsec b in
     if nsec < 0 then \<lparr>tv_sec = sec - 1, tv_nsec = nsec + NANO_PER_SEC\<rparr>
     else \<lparr>tv_sec = sec, tv_nsec = nsec\<rparr>)"

text \<open>The deadline that \<open>do_kevent\<close> computes from the clock and the timeout.\<close>

definition expire_time :: "timespec \<Rightarrow> timespec \<Rightarrow> timespec" where
  "expire_time now ts = (let sec = tv_sec now + tv_sec ts; nsec = tv_nsec now + tv_nsec ts in
     if nsec > NANO_PER_SEC then \<lparr>tv_sec = sec + 1, tv_nsec = nsec - NANO_PER_SEC\<rparr>
     else \<lparr>tv_sec = sec, tv_nsec = nsec\<rparr>)"

text \<open>The addition of the seconds is signed, so overflow is undefined behaviour.\<close>

definition fits_long :: "int \<Rightarrow> bool" where
  "fits_long n \<longleftrightarrow> - (2 ^ 63) \<le> n \<and> n < 2 ^ 63"

definition deadline :: "timespec \<Rightarrow> timespec \<Rightarrow> ('k, timespec) M" where
  "deadline now ts = (if fits_long (tv_sec now + tv_sec ts) \<and> fits_long (tv_sec (expire_time now ts))
     then ret (expire_time now ts) else throw (UB ''signed overflow in tv_sec''))"

text \<open>The two tests by which \<open>kevent_resume_p\<close> sees that the deadline has passed.\<close>

definition expired :: "timespec \<Rightarrow> timespec \<Rightarrow> bool" where
  "expired now expire_at \<longleftrightarrow> tv_sec now > tv_sec expire_at \<or>
     tv_sec now = tv_sec expire_at \<and> tv_nsec now > tv_nsec expire_at"

section \<open>The per-thread structure\<close>

definition sizeof_kq_per_thread :: "64 word" where "sizeof_kq_per_thread = 40"
definition sizeof_kevent :: "64 word" where "sizeof_kevent = 32"

definition get_kpt :: "nat \<Rightarrow> ('k, kq_per_thread) M" where
  "get_kpt p = bindE (deref p) (\<lambda>b. case ptr b of
       P_kpt k \<Rightarrow> ret k | _ \<Rightarrow> throw (UB ''buffer is not a kq_per_thread''))"

definition upd_kpt :: "nat \<Rightarrow> (kq_per_thread \<Rightarrow> kq_per_thread) \<Rightarrow> ('k, unit) M" where
  "upd_kpt p f = bindE (get_kpt p) (\<lambda>k. set_ptr p (P_kpt (f k)))"

text \<open>
  Storing an event behind the header, or several from the start; beyond the buffer this is
  undefined behaviour.
\<close>

definition kq_room :: "rb_sp_tlsbuf \<Rightarrow> nat \<Rightarrow> bool" where
  "kq_room b n \<longleftrightarrow> unat sizeof_kq_per_thread + unat sizeof_kevent * n \<le> unat (capa b)"

definition put_events :: "nat \<Rightarrow> nat \<Rightarrow> kevent list \<Rightarrow> ('k, unit) M" where
  "put_events p i evs = bindE (deref p) (\<lambda>b.
     if kq_room b (i + length evs)
     then upd_kpt p (\<lambda>k. k\<lparr>kq_events := take i (kq_events k) @ evs @ drop (i + length evs) (kq_events k)\<rparr>)
     else throw (UB ''event stored past the buffer''))"

definition kq_fd_check :: "'k vm \<Rightarrow> nat \<Rightarrow> ('k, unit) M" where
  "kq_fd_check V p =
     bindE get_errno (\<lambda>save_errno.
     bindE (get_kpt p) (\<lambda>kpt.
     bindE (rb_sp_fileno V (kq_io kpt)) (\<lambda>fd.
     bindE (upd_kpt p (kq_fd_update (\<lambda>_. fd))) (\<lambda>_.
     set_errno save_errno))))"

definition kpt_size :: "int \<Rightarrow> 64 word" where
  "kpt_size mx = sizeof_kq_per_thread + sizeof_kevent * of_int mx"

text \<open>The fields that \<open>kpt_get\<close> does not set hold whatever was in the buffer; zeros here.\<close>

definition new_kpt :: "int \<Rightarrow> int \<Rightarrow> int \<Rightarrow> kq_per_thread" where
  "new_kpt mx nchanges nevents = \<lparr>kq_io = VNil, kq_changelist = VNil, kq_fd = 0, kq_nchanges = nchanges,
     kq_nevents = nevents, kq_capa = mx, kq_ts = None, kq_events = []\<rparr>"

definition kpt_get :: "'k vm \<Rightarrow> 64 word \<Rightarrow> int \<Rightarrow> int \<Rightarrow> ('k, nat) M" where
  "kpt_get V line nchanges nevents =
     (let mx = if nchanges > nevents then nchanges else nevents in
      if mx < 0 then
        bindE (set_errno EINVAL) (\<lambda>_. rb_sys_fail ''kevent got negative events < 0'')
      else
        bindE (rb_sp_gettlsbuf V line (kpt_size mx)) (\<lambda>r.
        bindE (set_ptr (fst r) (P_kpt (new_kpt mx nchanges nevents))) (\<lambda>_.
        ret (fst r))))"

section \<open>Creation\<close>

definition s_new_kqueue :: "'k vm \<Rightarrow> 'k kqueue_sys \<Rightarrow> ('k, val) M" where
  "s_new_kqueue V Q =
     bindE (syscall (sys_kqueue Q)) (\<lambda>r.
     bindE (case r of
         Some fd \<Rightarrow> ret fd
       | None \<Rightarrow> bindE (rb_gc V) (\<lambda>_. bindE (syscall (sys_kqueue Q)) (\<lambda>r. case r of
             None \<Rightarrow> rb_sys_fail ''kqueue'' | Some fd \<Rightarrow> ret fd))) (\<lambda>fd.
     bindE (syscall (vm_fcntl_getfd V fd)) (\<lambda>flags.
     bindE (case flags of
         None \<Rightarrow> ret None
       | Some fl \<Rightarrow> syscall (vm_fcntl_setfd V fd (fl OR 1))) (\<lambda>_.
     rb_call_super_fd V fd))))"

section \<open>Events to Ruby\<close>

definition kevent_args :: "kevent \<Rightarrow> val list" where
  "kevent_args event = [ULL2NUM (kv_ident event), INT2NUM (kv_filter event), VInt (uint (kv_flags event)),
     UINT2NUM (kv_fflags event), VInt (kv_data event), kv_udata event]"

definition yield_kevent :: "'k blk option \<Rightarrow> kevent \<Rightarrow> ('k, unit) M" where
  "yield_kevent blk event = bindE (rb_need_block blk) (\<lambda>B. bindE (B (kevent_args event)) (\<lambda>_. ret ()))"

primrec kq_yield :: "'k blk option \<Rightarrow> nat \<Rightarrow> nat \<Rightarrow> nat \<Rightarrow> ('k, unit) M" where
  "kq_yield blk p 0 i = ret ()"
| "kq_yield blk p (Suc k) i = bindE (get_kpt p) (\<lambda>kpt.
     if i < length (kq_events kpt)
     then bindE (yield_kevent blk (kq_events kpt ! i)) (\<lambda>_. kq_yield blk p k (Suc i))
     else throw (UB ''event never written''))"

definition kevent_result :: "'k blk option \<Rightarrow> nat \<Rightarrow> int \<Rightarrow> ('k, val) M" where
  "kevent_result blk p n =
     bindE (if n < 0 then bindE get_errno (\<lambda>e. if e = EINTR then ret 0 else rb_sys_fail ''kevent'')
            else ret n) (\<lambda>n.
     bindE (kq_yield blk p (nat n) 0) (\<lambda>_.
     ret (INT2NUM n)))"

section \<open>Ruby to events\<close>

text \<open>The six members of a struct or array.\<close>

definition six2kevent :: "val list \<Rightarrow> fail + kevent" where
  "six2kevent xs =
     (case NUM2ULONG (xs ! 0) of Inl e \<Rightarrow> Inl e | Inr ident \<Rightarrow>
     (case NUM2SHORT (xs ! 1) of Inl e \<Rightarrow> Inl e | Inr filter' \<Rightarrow>
     (case NUM2USHORT (xs ! 2) of Inl e \<Rightarrow> Inl e | Inr flags \<Rightarrow>
     (case NUM2UINT (xs ! 3) of Inl e \<Rightarrow> Inl e | Inr fflags \<Rightarrow>
     (case NUM2LONG (xs ! 4) of Inl e \<Rightarrow> Inl e | Inr data \<Rightarrow>
       Inr \<lparr>kv_ident = ident, kv_filter = filter', kv_flags = flags, kv_fflags = fflags, kv_data = data,
            kv_udata = xs ! 5\<rparr>)))))"

text \<open>
  \<open>have_get\<close> is whether Ruby offers \<open>rb_struct_size\<close> and \<open>RSTRUCT_GET\<close>.  The version for old Rubies
  dereferences a VALUE and does not compile; what is left is the version that always raises.
\<close>

definition ev_set_struct :: "bool \<Rightarrow> val list \<Rightarrow> fail + kevent" where
  "ev_set_struct have_get event = (if have_get \<and> length event = 6 then six2kevent event
     else Inl (Raise (TypeError ''unsupported struct in changelist'')))"

definition ev_set_ary :: "val list \<Rightarrow> fail + kevent" where
  "ev_set_ary event = (if length event = 6 then six2kevent event
     else Inl (Raise (TypeError ''changelist must be an array of 6-element arrays or structs'')))"

text \<open>
  \<open>unpack_event(&events[i], event)\<close>.  The case for arrays has no return: control falls through to
  the default after the event has been stored.
\<close>

definition unpack_event :: "bool \<Rightarrow> nat \<Rightarrow> nat \<Rightarrow> val \<Rightarrow> ('k, unit) M" where
  "unpack_event have_get p i event = (case event of
       VStruct xs \<Rightarrow> bindE (liftE (ev_set_struct have_get xs)) (\<lambda>ev. put_events p i [ev])
     | VArr xs \<Rightarrow> bindE (liftE (ev_set_ary xs)) (\<lambda>ev. bindE (put_events p i [ev]) (\<lambda>_.
         rb_raise (TypeError ''unsupported type in changelist'')))
     | _ \<Rightarrow> rb_raise (TypeError ''unsupported type in changelist''))"

primrec ary2eventlist :: "bool \<Rightarrow> nat \<Rightarrow> nat \<Rightarrow> val list \<Rightarrow> ('k, unit) M" where
  "ary2eventlist have_get p i [] = ret ()"
| "ary2eventlist have_get p i (chg # rest) =
     bindE (unpack_event have_get p i chg) (\<lambda>_. ary2eventlist have_get p (Suc i) rest)"

definition changelist_prepare :: "bool \<Rightarrow> nat \<Rightarrow> val \<Rightarrow> ('k, unit) M" where
  "changelist_prepare have_get p changelist = (case changelist of
       VArr xs \<Rightarrow> ary2eventlist have_get p 0 xs
     | VStruct xs \<Rightarrow> unpack_event have_get p 0 changelist
     | _ \<Rightarrow> throw (Abort ''changelist_prepare not type filtered by sp_kevent''))"

section \<open>Waiting\<close>

definition kevent_resume_p :: "'k vm \<Rightarrow> timespec \<Rightarrow> nat \<Rightarrow> ('k, bool) M" where
  "kevent_resume_p V expire_at p =
     bindE (kq_fd_check V p) (\<lambda>_.
     bindE get_errno (\<lambda>e.
     if e \<noteq> EINTR then ret False
     else
       bindE (upd_kpt p (kq_nchanges_update (\<lambda>_. 0))) (\<lambda>_.
       bindE (get_kpt p) (\<lambda>kpt.
       if kq_ts kpt = None then ret True
       else
         bindE (clock_gettime V) (\<lambda>now.
         if expired now expire_at then ret False
         else bindE (upd_kpt p (kq_ts_update (\<lambda>_. Some (tssub expire_at now)))) (\<lambda>_. ret True))))))"

definition nogvl_kevent :: "'k kqueue_sys \<Rightarrow> nat \<Rightarrow> ('k, int) M" where
  "nogvl_kevent Q p = bindE (get_kpt p) (\<lambda>kpt.
     if length (kq_events kpt) < nat (kq_nchanges kpt) then throw (UB ''change never written'')
     else bindE (syscall (sys_kevent Q (kq_fd kpt) (take (nat (kq_nchanges kpt)) (kq_events kpt))
                   (kq_nevents kpt) (kq_ts kpt))) (\<lambda>r. case r of
         None \<Rightarrow> ret (-1)
       | Some evs \<Rightarrow> bindE (put_events p 0 evs) (\<lambda>_. ret (int (length evs)))))"

definition kevent_loop :: "'k vm \<Rightarrow> 'k kqueue_sys \<Rightarrow> timespec \<Rightarrow> nat \<Rightarrow> ('k, int) M" where
  "kevent_loop V Q expire_at p = loopE (\<lambda>_.
     bindE (get_kpt p) (\<lambda>kpt.
     bindE (rb_sp_fd_region V (nogvl_kevent Q p) (kq_fd kpt)) (\<lambda>n.
     if n < 0 then bindE (kevent_resume_p V expire_at p) (\<lambda>again. ret (if again then Inl () else Inr n))
     else ret (Inr n)))) ()"

text \<open>Without a timeout \<open>expire_at\<close> is never read; zeros here.\<close>

definition do_kevent :: "'k vm \<Rightarrow> 'k kqueue_sys \<Rightarrow> bool \<Rightarrow> 'k blk option \<Rightarrow> nat \<Rightarrow> ('k, val) M" where
  "do_kevent V Q have_get blk p =
     bindE (get_kpt p) (\<lambda>kpt.
     bindE (if kq_nchanges kpt \<noteq> 0 then changelist_prepare have_get p (kq_changelist kpt) else ret ()) (\<lambda>_.
     bindE (case kq_ts kpt of
         None \<Rightarrow> ret \<lparr>tv_sec = 0, tv_nsec = 0\<rparr>
       | Some ts \<Rightarrow> bindE (clock_gettime V) (\<lambda>now. deadline now ts)) (\<lambda>expire_at.
     bindE (kevent_loop V Q expire_at p) (\<lambda>n.
     kevent_result blk p n))))"

definition kevent_nchanges :: "val \<Rightarrow> fail + int" where
  "kevent_nchanges changelist = (case changelist of
       VNil \<Rightarrow> Inr 0
     | VStruct _ \<Rightarrow> Inr 1
     | VArr xs \<Rightarrow> if int (length xs) < 2 ^ 31 then Inr (int (length xs)) else Inl (Raise RangeError)
     | _ \<Rightarrow> Inl (Raise (TypeError ''unhandled type for kevent changelist'')))"

definition kevent_nevents :: "bool \<Rightarrow> val \<Rightarrow> fail + int" where
  "kevent_nevents block_given events =
     (if block_given then
        if events = VNil then Inl (Raise (ArgumentError ''block given but nevents not specified''))
        else (case NUM2INT events of
            Inl e \<Rightarrow> Inl e
          | Inr n \<Rightarrow> if n < 0 then Inl (Raise (ArgumentError ''nevents must be non-negative'')) else Inr n)
      else if events \<noteq> VNil then Inl (Raise (ArgumentError ''nevents specified but block not given''))
      else Inr 0)"

definition sp_kevent ::
  "'k vm \<Rightarrow> 'k kqueue_sys \<Rightarrow> 64 word \<Rightarrow> bool \<Rightarrow> val list \<Rightarrow> 'k blk option \<Rightarrow> val \<Rightarrow> ('k, val) M" where
  "sp_kevent V Q line have_get argv blk self =
     bindE (liftE (rb_scan_args 0 3 argv)) (\<lambda>args.
     let changelist = args ! 0; events = args ! 1; timeout = args ! 2 in
     bindE (liftE (kevent_nchanges changelist)) (\<lambda>nchanges.
     bindE (liftE (kevent_nevents (blk \<noteq> None) events)) (\<lambda>nevents.
     bindE (if timeout = VNil then ret None else bindE (liftE (value2timespec timeout)) (\<lambda>ts. ret (Some ts))) (\<lambda>t.
     bindE (kpt_get V line nchanges nevents) (\<lambda>p.
     bindE (upd_kpt p (\<lambda>k. k\<lparr>kq_ts := t, kq_changelist := changelist, kq_io := self\<rparr>)) (\<lambda>_.
     bindE (rb_sp_fileno V self) (\<lambda>fd.
     bindE (upd_kpt p (kq_fd_update (\<lambda>_. fd))) (\<lambda>_.
     rb_ensure (do_kevent V Q have_get blk p) (rb_sp_puttlsbuf (Some p))))))))))"

section \<open>Constants\<close>

definition uconst :: "hdr \<Rightarrow> klass \<Rightarrow> string \<Rightarrow> string \<Rightarrow> rb_def" where
  "uconst H m prefix x = DefConst m x (as_uint (macro H (prefix @ x)))"

definition iconst :: "hdr \<Rightarrow> klass \<Rightarrow> string \<Rightarrow> string \<Rightarrow> rb_def" where
  "iconst H m prefix x = DefConst m x (INT2NUM (macro H (prefix @ x)))"

definition if_macro :: "hdr \<Rightarrow> string \<Rightarrow> rb_def list \<Rightarrow> rb_def list" where
  "if_macro H m ds = (if H m = None then [] else ds)"

definition init_ev :: "hdr \<Rightarrow> rb_def list" where
  "init_ev H = DefModule mEv # map (uconst H mEv ''EV_'')
     [''ADD'', ''ENABLE'', ''DISABLE'', ''DISPATCH'', ''DELETE'', ''RECEIPT'', ''ONESHOT'', ''CLEAR'', ''EOF'', ''ERROR'']"

definition init_evfilt :: "hdr \<Rightarrow> rb_def list" where
  "init_evfilt H = DefModule mEvFilt # map (iconst H mEvFilt ''EVFILT_'') [''READ'', ''WRITE'', ''AIO'', ''VNODE'']
     @ if_macro H ''EVFILT_PROC'' [iconst H mEvFilt ''EVFILT_'' ''PROC'']
     @ map (iconst H mEvFilt ''EVFILT_'') [''SIGNAL'', ''TIMER'']
     @ if_macro H ''EVFILT_NETDEV'' [iconst H mEvFilt ''EVFILT_'' ''NETDEV'']
     @ if_macro H ''EVFILT_FS'' [iconst H mEvFilt ''EVFILT_'' ''FS'']
     @ if_macro H ''EVFILT_LIO'' [iconst H mEvFilt ''EVFILT_'' ''LIO'']
     @ [iconst H mEvFilt ''EVFILT_'' ''USER'']"

definition init_note :: "hdr \<Rightarrow> rb_def list" where
  "init_note H = DefModule mNote # map (uconst H mNote ''NOTE_'')
       [''FFNOP'', ''FFAND'', ''FFOR'', ''FFCOPY'', ''FFCTRLMASK'', ''FFLAGSMASK'', ''TRIGGER'']
     @ if_macro H ''NOTE_LOWAT'' [uconst H mNote ''NOTE_'' ''LOWAT'']
     @ if_macro H ''EVFILT_VNODE'' (map (uconst H mNote ''NOTE_'')
         [''DELETE'', ''WRITE'', ''EXTEND'', ''ATTRIB'', ''LINK'', ''RENAME'']
         @ if_macro H ''NOTE_REVOKE'' [uconst H mNote ''NOTE_'' ''REVOKE''])
     @ if_macro H ''EVFILT_PROC'' (map (uconst H mNote ''NOTE_'')
         [''EXIT'', ''FORK'', ''EXEC'', ''PCTRLMASK'', ''PDATAMASK'', ''TRACK'', ''TRACKERR'', ''CHILD''])
     @ if_macro H ''EVFILT_NETDEV'' (map (uconst H mNote ''NOTE_'') [''LINKUP'', ''LINKDOWN'', ''LINKINV''])"

definition init_vq :: "hdr \<Rightarrow> rb_def list" where
  "init_vq H = if_macro H ''VQ_NOTRESP'' (DefModule mVQ # map (uconst H mVQ ''VQ_'')
     [''NOTRESP'', ''NEEDAUTH'', ''LOWDISK'', ''MOUNT'', ''UNMOUNT'', ''DEAD'', ''ASSIST'', ''NOTRESPLOCK''])"

definition sleepy_penguin_init_kqueue :: "hdr \<Rightarrow> rb_def list" where
  "sleepy_penguin_init_kqueue H = DefModule mSleepyPenguin # init_ev H @ init_evfilt H @ init_note H @ init_vq H
     @ [DefClass cKqueue, DefClass cKqueue_IO, DefSingleton cKqueue_IO ''new'' 0,
        DefMethod cKqueue_IO ''kevent'' (-1)]"

section \<open>The buffer of a call\<close>

text \<open>The buffer holds a \<open>kq_per_thread\<close> of which \<open>P\<close> is true, with room for \<open>mx\<close> events.\<close>

definition kq_holds :: "nat \<Rightarrow> (kq_per_thread \<Rightarrow> bool) \<Rightarrow> rb_sp_tlsbuf \<Rightarrow> bool" where
  "kq_holds mx P b \<longleftrightarrow> (\<exists>k. ptr b = P_kpt k \<and> nat (kq_nevents k) \<le> mx \<and> P k) \<and> kq_room b mx"

text \<open>What \<open>kevent(2)\<close> documents: at most \<open>nevents\<close> events are returned.\<close>

definition kevent_bounded :: "'k kqueue_sys \<Rightarrow> bool" where
  "kevent_bounded Q \<longleftrightarrow> (\<forall>fd chg n t e evs e'. sys_kevent Q fd chg n t e = (Inr evs, e') \<longrightarrow> length evs \<le> nat n)"

lemma disc_get_kpt:
  assumes "\<And>k. P k \<Longrightarrow> nat (kq_nevents k) \<le> mx \<Longrightarrow> disciplined {p} (kq_holds mx (\<lambda>k'. k' = k)) (g k) K"
  shows "disciplined {p} (kq_holds mx P) (bindE (get_kpt p) g) K"
  unfolding get_kpt_def bindE_assoc
proof (rule disc_bindE [OF disc_deref], rule disc_known, goal_cases)
  case (1 b b')
  then obtain k where k: "ptr b = P_kpt k" "P k" "nat (kq_nevents k) \<le> mx" by (auto simp: kq_holds_def)
  then show ?case by simp (rule disciplined_weaken [OF assms [of k]], auto simp: kq_holds_def)
qed

lemma disc_read_kpt:
  assumes "\<And>k. P k \<Longrightarrow> disciplined {p} (kq_holds mx P) (g k) K"
  shows "disciplined {p} (kq_holds mx P) (bindE (get_kpt p) g) K"
  by (rule disc_get_kpt) (rule disc_pre [OF _ assms], auto simp: kq_holds_def)

lemma disc_upd_kpt:
  assumes "\<And>k. P k \<Longrightarrow> R (f k)" and "\<And>k. kq_nevents (f k) = kq_nevents k"
  shows "disciplined {p} (kq_holds mx P) (upd_kpt p f) (\<lambda>_. kq_holds mx R)"
  unfolding upd_kpt_def
  by (rule disc_get_kpt) (rule disciplined_weaken [OF disc_set_ptr [where J = "kq_holds mx R"]],
      auto simp: kq_holds_def kq_room_def assms)

lemma disc_put_events:
  assumes "i + length evs \<le> mx"
    and "\<And>k. P k \<Longrightarrow> R (k\<lparr>kq_events := take i (kq_events k) @ evs @ drop (i + length evs) (kq_events k)\<rparr>)"
  shows "disciplined {p} (kq_holds mx P) (put_events p i evs) (\<lambda>_. kq_holds mx R)"
  unfolding put_events_def
proof (rule disc_bindE [OF disc_deref], rule disc_known, goal_cases)
  case (1 b b')
  have "unat sizeof_kevent * (i + length evs) \<le> unat sizeof_kevent * mx" using assms(1) by (rule mult_le_mono2)
  with 1 have "kq_room b (i + length evs)" unfolding kq_holds_def kq_room_def by (auto intro: order_trans [rotated])
  moreover have "disciplined {p} (kq_holds mx P)
      (upd_kpt p (\<lambda>k. k\<lparr>kq_events := take i (kq_events k) @ evs @ drop (i + length evs) (kq_events k)\<rparr>)) (\<lambda>_. kq_holds mx R)"
    by (rule disc_upd_kpt) (use assms(2) in auto)
  ultimately show ?case by (auto elim!: disciplined_weaken)
qed

subsection \<open>The changelist\<close>

text \<open>\<open>c\<close> changes are announced and the first \<open>i\<close> have been stored.\<close>

definition kq_stored :: "int \<Rightarrow> nat \<Rightarrow> kq_per_thread \<Rightarrow> bool" where
  "kq_stored c i k \<longleftrightarrow> kq_nchanges k = c \<and> i \<le> length (kq_events k)"

lemma six2kevent_not_crash: "six2kevent xs = Inl f \<Longrightarrow> \<not> crash f"
  by (auto simp: six2kevent_def NUM2ULONG_def NUM2SHORT_def NUM2USHORT_def NUM2UINT_def NUM2LONG_def num_between_def
      split: sum.splits if_splits)

lemma disc_put_one:
  "i < mx \<Longrightarrow> disciplined {p} (kq_holds mx (kq_stored c i)) (put_events p i [ev]) (\<lambda>_. kq_holds mx (kq_stored c (Suc i)))"
  by (rule disc_put_events) (auto simp: kq_stored_def)

lemma disc_unpack_event:
  assumes "i < mx"
  shows "disciplined {p} (kq_holds mx (kq_stored c i)) (unpack_event hg p i x) (\<lambda>_. kq_holds mx (kq_stored c (Suc i)))"
proof (cases x)
  case (VArr xs)
  show ?thesis
    unfolding VArr unpack_event_def val.case
    by (intro disc_liftE disc_bindE [OF disc_put_one [OF assms]] disc_rb_raise)
      (auto simp: ev_set_ary_def six2kevent_not_crash split: if_splits)
next
  case (VStruct xs)
  show ?thesis
    unfolding VStruct unpack_event_def val.case
    by (intro disc_liftE disc_put_one [OF assms]) (auto simp: ev_set_struct_def six2kevent_not_crash split: if_splits)
qed (simp_all add: unpack_event_def disc_rb_raise)

lemma disc_ary2eventlist:
  "i + length xs \<le> mx \<Longrightarrow> disciplined {p} (kq_holds mx (kq_stored c i)) (ary2eventlist hg p i xs)
     (\<lambda>_. kq_holds mx (kq_stored c (i + length xs)))"
proof (induction xs arbitrary: i)
  case Nil
  show ?case by simp (rule disc_ret)
next
  case (Cons x xs)
  from Cons.prems have i: "i < mx" and rest: "Suc i + length xs \<le> mx" by simp_all
  from disc_bindE [OF disc_unpack_event [OF i] Cons.IH [OF rest]] show ?case by simp
qed

lemma disc_changelist_prepare:
  assumes "kevent_nchanges chl = Inr c" and "c \<noteq> 0" and "nat c \<le> mx"
  shows "disciplined {p} (kq_holds mx (\<lambda>k. kq_nchanges k = c)) (changelist_prepare hg p chl)
     (\<lambda>_. kq_holds mx (kq_stored c (nat c)))"
proof -
  have pre: "kq_holds mx (\<lambda>k. kq_nchanges k = c) = kq_holds mx (kq_stored c 0)"
    by (simp add: fun_eq_iff kq_holds_def kq_stored_def)
  from assms show ?thesis
    unfolding pre using disc_ary2eventlist [of 0 _ mx p c hg] disc_unpack_event [of 0 mx p c hg chl]
    by (cases chl) (auto simp: kevent_nchanges_def changelist_prepare_def split: if_splits)
qed

subsection \<open>The wait\<close>

text \<open>The announced changes have been stored.\<close>

definition kq_ready :: "kq_per_thread \<Rightarrow> bool" where
  "kq_ready k \<longleftrightarrow> nat (kq_nchanges k) \<le> length (kq_events k)"

text \<open>The same, and at least \<open>n\<close> events are there to be read.\<close>

definition kq_filled :: "int \<Rightarrow> kq_per_thread \<Rightarrow> bool" where
  "kq_filled n k \<longleftrightarrow> kq_ready k \<and> nat n \<le> length (kq_events k)"

lemma disc_nogvl_kevent:
  assumes "kevent_bounded Q"
  shows "disciplined {p} (kq_holds mx kq_ready) (nogvl_kevent Q p) (\<lambda>n. kq_holds mx (kq_filled n))"
  unfolding nogvl_kevent_def
proof (rule disc_get_kpt, goal_cases)
  case (1 k)
  have ok: "disciplined {p} (kq_holds mx (\<lambda>k'. k' = k)) (bindE (put_events p 0 evs) (\<lambda>_. ret (int (length evs))))
      (\<lambda>n. kq_holds mx (kq_filled n))" if "length evs \<le> nat (kq_nevents k)" for evs
    by (rule disc_bindE [OF disc_put_events [where R = "kq_filled (int (length evs))"] disc_ret])
      (use that 1 in \<open>auto simp: kq_filled_def kq_ready_def\<close>)
  have neg: "disciplined {p} (kq_holds mx (\<lambda>k'. k' = k)) (ret (-1)) (\<lambda>n. kq_holds mx (kq_filled n))"
    by (rule disc_ret) (use 1 in \<open>auto simp: kq_holds_def kq_filled_def\<close>)
  have len: "length evs \<le> nat (kq_nevents k)"
    if "sys_kevent Q fd chg (kq_nevents k) t e = (Inr evs, e')" for fd chg t e evs e'
    using that assms unfolding kevent_bounded_def by blast
  have "disciplined {p} (kq_holds mx (\<lambda>k'. k' = k))
      (bindE (syscall (sys_kevent Q (kq_fd k) (take (nat (kq_nchanges k)) (kq_events k)) (kq_nevents k) (kq_ts k)))
        (\<lambda>r. case r of None \<Rightarrow> ret (-1)
          | Some evs \<Rightarrow> bindE (put_events p 0 evs) (\<lambda>_. ret (int (length evs))))) (\<lambda>n. kq_holds mx (kq_filled n))"
    by (rule disc_syscall) (simp, erule ok [OF len], simp add: neg)
  with 1(1) show ?case by (simp add: kq_ready_def not_less)
qed

lemma kq_holds_mono: "(\<And>k. P k \<Longrightarrow> R k) \<Longrightarrow> kq_holds mx P b \<Longrightarrow> kq_holds mx R b"
  by (auto simp: kq_holds_def)

lemma disc_kq_fd_check: "disciplined {p} (kq_holds mx kq_ready) (kq_fd_check V p) (\<lambda>_. kq_holds mx kq_ready)"
  unfolding kq_fd_check_def
  by (intro disc_bindE_keeps [where m = get_errno] disc_bindE_keeps [where m = "rb_sp_fileno _ _"]
      keeps_intros safe_intros disc_read_kpt disc_bindE [OF disc_upd_kpt [where R = kq_ready]] disciplined_keeps)
    (simp_all add: kq_ready_def)

lemma disc_kevent_resume_p:
  "disciplined {p} (kq_holds mx kq_ready) (kevent_resume_p V expire_at p) (\<lambda>_. kq_holds mx kq_ready)"
  unfolding kevent_resume_p_def
  by (intro disc_bindE [OF disc_kq_fd_check] disc_bindE_keeps [where m = get_errno]
      disc_bindE_keeps [where m = "clock_gettime _"] keeps_intros safe_intros
      disc_if disc_read_kpt disc_ret disc_bindE [OF disc_upd_kpt [where R = kq_ready]])
    (simp_all add: kq_ready_def)

lemma disc_kevent_loop:
  assumes "kevent_bounded Q"
  shows "disciplined {p} (kq_holds mx kq_ready) (kevent_loop V Q expire_at p) (\<lambda>n. kq_holds mx (kq_filled n))"
  unfolding kevent_loop_def rb_sp_fd_region_def
proof (rule disc_loopE [where J = "\<lambda>_. kq_holds mx kq_ready"], rule disc_read_kpt,
    rule disc_bindE [OF disc_without_gvl [OF disc_nogvl_kevent [OF assms]]], rule disc_if)
  fix n :: int
  assume "n < 0"
  then have eq: "kq_filled n = kq_ready" by (simp add: kq_filled_def fun_eq_iff)
  show "disciplined {p} (kq_holds mx (kq_filled n)) (bindE (kevent_resume_p V expire_at p)
      (\<lambda>again. ret (if again then Inl () else Inr n)))
      (\<lambda>r. case r of Inl x' \<Rightarrow> kq_holds mx kq_ready | Inr a \<Rightarrow> kq_holds mx (kq_filled a))"
    unfolding eq by (intro disc_bindE [OF disc_kevent_resume_p] disc_ret) (simp add: eq)
next
  fix n :: int
  show "disciplined {p} (kq_holds mx (kq_filled n)) (ret (Inr n))
      (\<lambda>r. case r of Inl x' \<Rightarrow> kq_holds mx kq_ready | Inr a \<Rightarrow> kq_holds mx (kq_filled a))"
    by (rule disc_ret) simp
qed

abbreviation balanced_blk :: "'k blk option \<Rightarrow> bool" where
  "balanced_blk blk \<equiv> \<forall>B v. blk = Some B \<longrightarrow> balanced (B v)"

lemma disc_yield_kevent:
  assumes "balanced_blk blk"
  shows "disciplined {p} J (yield_kevent blk ev) (\<lambda>_. J)"
proof (cases blk)
  case (Some B)
  with assms show ?thesis
    by (auto simp: yield_kevent_def rb_need_block_def intro!: disc_bindE [OF balanced_disciplined] disc_ret)
qed (simp add: yield_kevent_def rb_need_block_def disc_rb_raise)

lemma disc_kq_yield:
  assumes B: "balanced_blk blk" and "i + k \<le> nat n"
  shows "disciplined {p} (kq_holds mx (kq_filled n)) (kq_yield blk p k i) (\<lambda>_. kq_holds mx (kq_filled n))"
  using assms(2)
proof (induction k arbitrary: i)
  case 0
  show ?case by simp (rule disc_ret)
next
  case (Suc k)
  show ?case
    unfolding kq_yield.simps
  proof (rule disc_read_kpt)
    fix kpt
    assume "kq_filled n kpt"
    then have "i < length (kq_events kpt)" using Suc.prems by (simp add: kq_filled_def)
    then show "disciplined {p} (kq_holds mx (kq_filled n)) (if i < length (kq_events kpt)
        then bindE (yield_kevent blk (kq_events kpt ! i)) (\<lambda>_. kq_yield blk p k (Suc i))
        else throw (UB ''event never written'')) (\<lambda>_. kq_holds mx (kq_filled n))"
      using Suc by (simp add: disc_bindE [OF disc_yield_kevent [OF B]])
  qed
qed

lemma disc_kevent_result:
  assumes B: "balanced_blk blk"
  shows "disciplined {p} (kq_holds mx (kq_filled n)) (kevent_result blk p n) (\<lambda>_ _. True)"
  unfolding kevent_result_def
proof (rule disc_bindE [where K = "\<lambda>m. kq_holds mx (kq_filled m)"], goal_cases)
  case 1
  show ?case
    by (intro disc_if disc_bindE_keeps keeps_intros safe_intros disc_ret disc_rb_sys_fail)
      (auto simp: kq_filled_def elim: kq_holds_mono [rotated])
next
  case (2 m)
  show ?case by (intro disc_bindE [OF disc_kq_yield [OF B]] disc_ret) simp_all
qed

text \<open>The clock shows sane times and the timeout is short of half the range of \<open>time_t\<close>: no overflow.\<close>

definition clock_ok :: "'k vm \<Rightarrow> bool" where
  "clock_ok V \<longleftrightarrow> (\<forall>e. ts_ok (fst (vm_clock_gettime V e)))"

definition wait_ok :: "timespec option \<Rightarrow> bool" where
  "wait_ok t \<longleftrightarrow> (case t of None \<Rightarrow> True | Some ts \<Rightarrow> \<bar>tv_sec ts\<bar> < 2 ^ 62)"

lemma keeps_deadline [keeps_intros]: "keeps f (deadline now ts)"
  unfolding deadline_def by (intro keeps_intros)

lemma deadline_ok: "ts_ok now \<Longrightarrow> wait_ok (Some ts) \<Longrightarrow> deadline now ts = ret (expire_time now ts)"
  by (auto simp: deadline_def fits_long_def ts_ok_def wait_ok_def expire_time_def Let_def)

lemma safe_deadline:
  assumes "clock_ok V" and "wait_ok (Some ts)"
  shows "safe (bindE (clock_gettime V) (\<lambda>now. deadline now ts))"
  using assms
  by (auto simp: safe_def clock_gettime_def envE_def run_simps clock_ok_def deadline_ok)

lemma disc_do_kevent:
  assumes Q: "kevent_bounded Q" and B: "balanced_blk blk" and c: "kevent_nchanges chl = Inr c" "nat c \<le> mx"
    and V: "clock_ok V"
  shows "disciplined {p} (kq_holds mx (\<lambda>k. kq_nchanges k = c \<and> kq_changelist k = chl \<and> wait_ok (kq_ts k)))
     (do_kevent V Q hg blk p) (\<lambda>_ _. True)"
  unfolding do_kevent_def
proof (rule disc_get_kpt, goal_cases)
  case (1 k)
  have prep: "disciplined {p} (kq_holds mx (\<lambda>k'. k' = k))
      (if kq_nchanges k \<noteq> 0 then changelist_prepare hg p (kq_changelist k) else ret ()) (\<lambda>_. kq_holds mx kq_ready)"
  proof (cases "c = 0")
    case True
    with 1 show ?thesis by (auto intro!: disc_ret elim!: kq_holds_mono [rotated] simp: kq_ready_def)
  next
    case False
    have "disciplined {p} (kq_holds mx (\<lambda>k'. k' = k)) (changelist_prepare hg p chl) (\<lambda>_. kq_holds mx kq_ready)"
      by (rule disciplined_weaken [OF disc_changelist_prepare [OF c(1) False c(2)]])
        (use 1 in \<open>auto elim!: kq_holds_mono [rotated] simp: kq_stored_def kq_ready_def\<close>)
    with False 1 show ?thesis by simp
  qed
  have "safe (case kq_ts k of None \<Rightarrow> ret \<lparr>tv_sec = 0, tv_nsec = 0\<rparr>
      | Some ts \<Rightarrow> bindE (clock_gettime V) (\<lambda>now. deadline now ts))"
    using 1 by (cases "kq_ts k") (auto intro: safe_deadline [OF V] safe_intros)
  then show ?case
    by (intro disc_bindE [OF prep] disc_bindE_keeps [where m = "case_option _ _ _"] keeps_intros
        disc_bindE [OF disc_kevent_loop [OF Q]] disc_kevent_result [OF B])
qed

section \<open>A whole call\<close>

text \<open>The largest number of changes or events whose buffer size fits the 32-bit capacity.\<close>

definition kevent_limit :: int where "kevent_limit = 134217725"

lemma unat_kpt_size:
  assumes "0 \<le> mx" and "mx \<le> kevent_limit"
  shows "unat (kpt_size mx) = unat sizeof_kq_per_thread + unat sizeof_kevent * nat mx"
    and "kpt_size mx < UINT32_MAX"
proof -
  have "kpt_size mx = word_of_nat (40 + 32 * nat mx)"
    using assms by (simp add: kpt_size_def sizeof_kq_per_thread_def sizeof_kevent_def)
  moreover have "40 + 32 * nat mx < 2 ^ 32 - 1" using assms by (simp add: kevent_limit_def)
  ultimately have u: "unat (kpt_size mx) = 40 + 32 * nat mx"
    using unat_word_of_nat [where 'a = 64, of "40 + 32 * nat mx"] by (simp only:) simp
  then show "unat (kpt_size mx) = unat sizeof_kq_per_thread + unat sizeof_kevent * nat mx"
    by (simp add: sizeof_kq_per_thread_def sizeof_kevent_def)
  show "kpt_size mx < UINT32_MAX"
    using u assms by (simp add: UINT32_MAX_def kevent_limit_def word_less_nat_alt)
qed

lemma kevent_nchanges_nonneg: "kevent_nchanges chl = Inr c \<Longrightarrow> 0 \<le> c"
  by (auto simp: kevent_nchanges_def split: val.splits if_splits)

lemma kevent_nevents_nonneg: "kevent_nevents b v = Inr n \<Longrightarrow> 0 \<le> n"
  by (auto simp: kevent_nevents_def split: sum.splits if_splits)

text \<open>After the arguments have been accepted, \<open>sp_kevent\<close> borrows a buffer and fills in the header.\<close>

definition full_kpt :: "int \<Rightarrow> int \<Rightarrow> timespec option \<Rightarrow> val \<Rightarrow> val \<Rightarrow> kq_per_thread" where
  "full_kpt c n t chl self = (new_kpt (max c n) c n)\<lparr>kq_ts := t, kq_changelist := chl, kq_io := self\<rparr>"

lemma kpt_borrow:
  assumes V: "mem_ok V" "alloc_keeps V ios" and inv: "tls_inv s"
    and cn: "0 \<le> c" "0 \<le> n" "max c n \<le> kevent_limit"
  shows "\<exists>p u. bindE (kpt_get V line c n) (\<lambda>p.
       bindE (upd_kpt p (\<lambda>k. k\<lparr>kq_ts := t, kq_changelist := chl, kq_io := self\<rparr>)) (\<lambda>_. g p)) s = g p u \<and>
     tls_inv u \<and> p \<notin> lent s \<and> lent u = insert p (lent s) \<and> (\<forall>q \<in> lent s. heap u q = heap s q) \<and>
     ios (env u) = ios (env s) \<and> owned {p} (kq_holds (nat (max c n)) (\<lambda>k. k = full_kpt c n t chl self)) u"
proof -
  let ?mx = "max c n"
  note sz = unat_kpt_size [of ?mx]
  have "0 \<le> ?mx" using cn by simp
  from gettlsbuf_lends [OF V(1) inv sz(2) [OF this cn(3)]] obtain r w
    where g: "rb_sp_gettlsbuf V line (kpt_size ?mx) s = Some (Inr r, w)" and l: "lends (kpt_size ?mx) s r w" by blast
  from keepsD [OF keeps_env_gettlsbuf [OF V(2)] g] have io: "ios (env w) = ios (env s)" .
  from l obtain b where b: "heap w (fst r) = Some b" "kpt_size ?mx \<le> ucast (capa b)" by (auto simp: lends_def)
  have "fst r \<in> lent w" using l by (simp add: lends_def)
  with b(1) have b': "buf_type b \<noteq> RB_SP_TLS_READY" by (simp add: lent_def)
  have room: "kq_room b (nat ?mx)"
    using b(2) sz(1) cn by (simp add: kq_room_def word_le_nat_alt unat_ucast_32_64)
  let ?h = "\<lambda>x. (heap w)(fst r \<mapsto> b\<lparr>ptr := P_kpt x\<rparr>)"
  let ?u = "w\<lparr>heap := ?h (full_kpt c n t chl self)\<rparr>"
  note inv' = lends_owned(1) [OF l]
  have mx: "(if n < c then c else n) = ?mx" by simp
  have "bindE (kpt_get V line c n) (\<lambda>p. bindE (upd_kpt p (\<lambda>k. k\<lparr>kq_ts := t, kq_changelist := chl, kq_io := self\<rparr>))
      (\<lambda>_. g p)) s = g (fst r) ?u"
    using cn by (simp add: kpt_get_def Let_def mx run_simps g set_ptr_def store_def deref_def b(1) upd_kpt_def get_kpt_def
        full_kpt_def)
  moreover note fr = store_ptr_frame(2) [OF inv' b(1) b', of "P_kpt (full_kpt c n t chl self)"]
  have "tls_inv ?u" "lent ?u = insert (fst r) (lent s)" "fst r \<notin> lent s" "\<forall>q \<in> lent s. heap ?u q = heap s q"
    using tls_frame_inv [OF fr] tls_frame_lent [OF fr] l by (auto simp: lends_def)
  moreover have "owned {fst r} (kq_holds (nat ?mx) (\<lambda>k. k = full_kpt c n t chl self)) ?u"
    using b' room by (auto simp: owned_def kq_holds_def kq_room_def full_kpt_def new_kpt_def)
  ultimately show ?thesis using io by fastforce
qed

definition kevent_timeout :: "val \<Rightarrow> fail + timespec option" where
  "kevent_timeout timeout = (if timeout = VNil then Inr None else map_sum id Some (value2timespec timeout))"

lemma sp_kevent_args:
  "sp_kevent V Q line hg [chl, nev, tmo] blk self =
     (case kevent_nchanges chl of Inl f \<Rightarrow> throw f | Inr c \<Rightarrow>
     (case kevent_nevents (blk \<noteq> None) nev of Inl f \<Rightarrow> throw f | Inr n \<Rightarrow>
     (case kevent_timeout tmo of Inl f \<Rightarrow> throw f | Inr t \<Rightarrow>
       bindE (kpt_get V line c n) (\<lambda>p.
       bindE (upd_kpt p (\<lambda>k. k\<lparr>kq_ts := t, kq_changelist := chl, kq_io := self\<rparr>)) (\<lambda>_.
       bindE (rb_sp_fileno V self) (\<lambda>fd.
       bindE (upd_kpt p (kq_fd_update (\<lambda>_. fd))) (\<lambda>_.
       rb_ensure (do_kevent V Q hg blk p) (rb_sp_puttlsbuf (Some p)))))))))"
  by (simp add: sp_kevent_def rb_scan_args_def kevent_timeout_def liftE_Inr numeral_2_eq_2 bindE_liftE bindE_assoc
      split: sum.split)

lemma float2timespec_not_crash: "float2timespec r = Inl f \<Longrightarrow> \<not> crash f"
  by (auto simp: float2timespec_def Let_def split: if_splits)

lemma kevent_args_not_crash:
  "kevent_nchanges chl = Inl f \<Longrightarrow> \<not> crash f" "kevent_nevents b nev = Inl f \<Longrightarrow> \<not> crash f"
  "kevent_timeout tmo = Inl f \<Longrightarrow> \<not> crash f"
  by (auto simp: kevent_nchanges_def kevent_nevents_def kevent_timeout_def NUM2INT_def num_between_def
      value2timespec_def NUM2LONG_def split: val.splits sum.splits if_splits dbl.splits
      dest: float2timespec_not_crash)

text \<open>The call from the moment the buffer is borrowed, on a kqueue that is open.\<close>

lemma kevent_core_leaves_buffers:
  assumes Q: "kevent_bounded Q" and V: "mem_ok V" "alloc_keeps V ios" "clock_ok V" and B: "balanced_blk blk"
    and s: "tls_inv s" "ios (env s) i = IO_open fd"
    and c: "kevent_nchanges chl = Inr c" and n: "kevent_nevents b nev = Inr n" and lim: "max c n \<le> kevent_limit"
    and t: "wait_ok t"
    and run: "bindE (kpt_get V line c n) (\<lambda>p.
       bindE (upd_kpt p (\<lambda>k. k\<lparr>kq_ts := t, kq_changelist := chl, kq_io := VFile i\<rparr>)) (\<lambda>_.
       bindE (rb_sp_fileno V (VFile i)) (\<lambda>fd.
       bindE (upd_kpt p (kq_fd_update (\<lambda>_. fd))) (\<lambda>_.
       rb_ensure (do_kevent V Q hg blk p) (rb_sp_puttlsbuf (Some p)))))) s = Some (r, t')"
  shows "tls_inv t' \<and> lent t' = lent s \<and> (\<forall>q \<in> lent s. heap t' q = heap s q) \<and> (\<forall>f. r = Inl f \<longrightarrow> \<not> crash f)"
proof -
  let ?P = "\<lambda>k. kq_nchanges k = c \<and> kq_changelist k = chl \<and> wait_ok (kq_ts k)"
  have cn: "0 \<le> c" "0 \<le> n" using kevent_nchanges_nonneg [OF c] kevent_nevents_nonneg [OF n] .
  let ?g = "\<lambda>p. bindE (rb_sp_fileno V (VFile i)) (\<lambda>fd. bindE (upd_kpt p (kq_fd_update (\<lambda>_. fd))) (\<lambda>_.
       rb_ensure (do_kevent V Q hg blk p) (rb_sp_puttlsbuf (Some p))))"
  obtain p u where g: "bindE (kpt_get V line c n) (\<lambda>p.
       bindE (upd_kpt p (\<lambda>k. k\<lparr>kq_ts := t, kq_changelist := chl, kq_io := VFile i\<rparr>)) (\<lambda>_. ?g p)) s = ?g p u"
    and u: "tls_inv u" "p \<notin> lent s" "lent u = insert p (lent s)" "\<forall>q \<in> lent s. heap u q = heap s q"
      "ios (env u) = ios (env s)" "owned {p} (kq_holds (nat (max c n)) (\<lambda>k. k = full_kpt c n t chl (VFile i))) u"
    using kpt_borrow [where g = ?g and line = line and t = t and chl = chl and self = "VFile i", OF V(1,2) s(1) cn lim]
    by blast
  have eq: "?g p u = Some (r, t')" using run unfolding g .
  have "disciplined {p} (kq_holds (nat (max c n)) (\<lambda>k. k = full_kpt c n t chl (VFile i)))
      (upd_kpt p (kq_fd_update (\<lambda>_. fd))) (\<lambda>_. kq_holds (nat (max c n)) ?P)"
    by (rule disc_upd_kpt) (simp_all add: full_kpt_def new_kpt_def t)
  from eq u(5) s(2) have eq': "bindE (upd_kpt p (kq_fd_update (\<lambda>_. fd))) (\<lambda>_.
       rb_ensure (do_kevent V Q hg blk p) (rb_sp_puttlsbuf (Some p))) u = Some (r, t')"
    by (simp add: bindE_run [of "rb_sp_fileno V (VFile i)"] rb_sp_fileno_file)
  then show ?thesis
  proof (cases rule: bindE_cases)
    case (err f)
    have "\<exists>w. upd_kpt p (kq_fd_update (\<lambda>_. fd)) u = Some (Inr (), w)"
      using u(6) by (auto simp: owned_def kq_holds_def upd_kpt_def get_kpt_def deref_def set_ptr_def store_def run_simps)
    with err show ?thesis by auto
  next
    case (val x w)
    note d = disciplinedD(1,2) [OF \<open>disciplined {p} _ (upd_kpt p _) _\<close> u(1,6) val(1)]
    have "disciplined {p} (kq_holds (nat (max c n)) ?P) (do_kevent V Q hg blk p) (\<lambda>_ _. True)"
      by (rule disc_do_kevent [OF Q B c _ V(3)]) simp
    from releasesD [OF tls.ensure_releases [OF this] tls_frame_inv [OF d(1)] d(2) [OF refl] val(2)]
    show ?thesis using d(1) u by (auto simp: takes_back_def tls_frame_def)
  qed
qed

section \<open>Properties\<close>

text \<open>C3: a call of \<open>Kqueue::IO#kevent\<close> on an open kqueue leaves the thread's scratch buffers as it found
  them, on every path: arguments refused, changes refused, interrupted, returned or raised from
  the block.  It never stores an event past its buffer and never trips an assertion.\<close>

theorem kevent_leaves_buffers:
  assumes "kevent_bounded Q" and "mem_ok V" and "alloc_keeps V ios" and "clock_ok V"
    and "\<forall>B v. blk = Some B \<longrightarrow> balanced (B v)" and "tls_inv s" and "ios (env s) i = IO_open fd"
    and "\<forall>c. kevent_nchanges chl = Inr c \<longrightarrow> c \<le> kevent_limit" and "\<forall>n. NUM2INT nev = Inr n \<longrightarrow> n \<le> kevent_limit"
    and "\<forall>ts. kevent_timeout tmo = Inr ts \<longrightarrow> wait_ok ts"
    and "sp_kevent V Q line hg [chl, nev, tmo] blk (VFile i) s = Some (r, t)"
  shows "tls_inv t \<and> lent t = lent s \<and> (\<forall>q \<in> lent s. heap t q = heap s q) \<and> (\<forall>f. r = Inl f \<longrightarrow> \<not> crash f)"
proof (cases "\<exists>c n ts. kevent_nchanges chl = Inr c \<and> kevent_nevents (blk \<noteq> None) nev = Inr n \<and> kevent_timeout tmo = Inr ts")
  case True
  then obtain c n ts where ok: "kevent_nchanges chl = Inr c" "kevent_nevents (blk \<noteq> None) nev = Inr n"
    "kevent_timeout tmo = Inr ts" by blast
  have "n \<le> kevent_limit"
    using ok(2) assms(9) by (auto simp: kevent_nevents_def kevent_limit_def split: if_splits sum.splits)
  with assms(8) ok(1) have "max c n \<le> kevent_limit" by simp
  from kevent_core_leaves_buffers [OF assms(1-7) ok(1,2) this] ok(3) assms(10,11) show ?thesis
    unfolding sp_kevent_args ok sum.case by blast
next
  case False
  with assms(11) have "t = s" "\<forall>f. r = Inl f \<longrightarrow> \<not> crash f"
    unfolding sp_kevent_args by (auto simp: run_simps kevent_args_not_crash split: sum.splits)
  with assms(6) show ?thesis by simp
qed

section \<open>The property at a concrete input\<close>

text \<open>A kqueue that reports one readable descriptor after the interruptions.\<close>

definition sample_kev :: kevent where
  "sample_kev = \<lparr>kv_ident = 5, kv_filter = -1, kv_flags = 1, kv_fflags = 0, kv_data = 3, kv_udata = VFile 0\<rparr>"

definition sample_kqueue :: "nat kqueue_sys" where
  "sample_kqueue = \<lparr>sys_kqueue = (\<lambda>e. (Inr 7, e)),
     sys_kevent = (\<lambda>fd chg n t. after_interrupts (take (nat n) [sample_kev]))\<rparr>"

lemma sample_kqueue_bounded: "kevent_bounded sample_kqueue"
  by (auto simp: kevent_bounded_def sample_kqueue_def after_interrupts_def split: if_splits)

lemma sample_clock: "clock_ok sample_vm"
  by (simp add: clock_ok_def ts_ok_def sample_vm_def)

theorem kevent_leaves_buffers_witness:
  "\<exists>t. sp_kevent sample_vm sample_kqueue 64 True [VArr [VStruct (kevent_args sample_kev)], VInt 4, VInt 2]
       (Some (\<lambda>v. ret VNil)) (VFile 0) (sample_st 1) = Some (Inr (VInt 1), t) \<and> tls_inv t \<and> lent t = {}"
proof -
  let ?argv = "[VArr [VStruct (kevent_args sample_kev)], VInt 4, VInt 2]"
  have "map_option fst (sp_kevent sample_vm sample_kqueue 64 True ?argv
      (Some (\<lambda>v. ret VNil)) (VFile 0) (sample_st 1)) = Some (Inr (VInt 1))" by code_simp
  then obtain t where run: "sp_kevent sample_vm sample_kqueue 64 True ?argv
      (Some (\<lambda>v. ret VNil)) (VFile 0) (sample_st 1) = Some (Inr (VInt 1), t)" by auto
  have "tls_inv t \<and> lent t = lent (sample_st 1) \<and> (\<forall>q \<in> lent (sample_st 1). heap t q = heap (sample_st 1) q) \<and>
      (\<forall>f. Inr (VInt 1) = Inl f \<longrightarrow> \<not> crash f)"
    by (rule kevent_leaves_buffers [OF sample_kqueue_bounded sample_mem_ok sample_alloc_keeps sample_clock _
          sample_pool(1) _ _ _ _ run, where fd = 5])
      (auto simp: sample_st_def sample_env_def kevent_nchanges_def kevent_limit_def NUM2INT_def num_between_def
        kevent_timeout_def value2timespec_def NUM2LONG_def wait_ok_def balanced_leaf)
  with run show ?thesis by (simp add: sample_pool(2))
qed

end
