(* ===== verification/SP_Kevent.thy ===== *)
theory SP_Kevent
  imports SP_Kqueue
begin

text \<open>
  What a call of \<open>Kqueue::IO#kevent\<close> does, on top of the model of kqueue.c: the changes the kernel gets,
  the events the block gets, the restart after signals and the time that is left then, and the
  cases in which the code does not do what it means to.
\<close>

section \<open>Running on a buffer\<close>

lemma get_kpt_run: "heap s p = Some b \<Longrightarrow> ptr b = P_kpt k \<Longrightarrow> get_kpt p s = Some (Inr k, s)"
  by (simp add: get_kpt_def deref_def run_simps)

lemma get_kpt_Inr:
  assumes "get_kpt p s = Some (Inr k, t)"
  shows "t = s" and "\<exists>b. heap s p = Some b \<and> ptr b = P_kpt k"
  using assms by (auto simp: get_kpt_def deref_def run_simps split: option.splits payload.splits)

lemma upd_kpt_run:
  "heap s p = Some b \<Longrightarrow> ptr b = P_kpt k \<Longrightarrow>
   upd_kpt p f s = Some (Inr (), s\<lparr>heap := (heap s)(p \<mapsto> b\<lparr>ptr := P_kpt (f k)\<rparr>)\<rparr>)"
  by (simp add: upd_kpt_def get_kpt_def deref_def set_ptr_def store_def run_simps)

lemma put_events_run:
  "heap s p = Some b \<Longrightarrow> ptr b = P_kpt k \<Longrightarrow> kq_room b (i + length evs) \<Longrightarrow>
   put_events p i evs s = Some (Inr (), s\<lparr>heap := (heap s)(p \<mapsto> b\<lparr>ptr :=
     P_kpt (k\<lparr>kq_events := take i (kq_events k) @ evs @ drop (i + length evs) (kq_events k)\<rparr>)\<rparr>)\<rparr>)"
  by (simp add: put_events_def deref_def run_simps upd_kpt_run)

lemma kq_room_mono: "kq_room b n \<Longrightarrow> m \<le> n \<Longrightarrow> kq_room b m"
  unfolding kq_room_def by (meson add_left_mono mult_le_mono2 order_trans)

section \<open>Events to the block\<close>

definition kpt_events :: "payload \<Rightarrow> kevent list option" where
  "kpt_events x = (case x of P_kpt k \<Rightarrow> Some (kq_events k) | _ \<Rightarrow> None)"

interpretation kq_buf: event_buffer B p kpt_events kevent_args "kq_yield (Some B) p" for B p
  by unfold_locales
    (auto simp: kpt_events_def bindE_run [of "get_kpt _"] ret_run get_kpt_run yield_kevent_def rb_need_block_def
      bindE_assoc split: payload.splits)

section \<open>Changes to the kernel\<close>

text \<open>The values of an event fit the C fields: what the kernel returns does, and the conversions accept it.\<close>

definition kev_ok :: "kevent \<Rightarrow> bool" where
  "kev_ok ev \<longleftrightarrow> - (2 ^ 15) \<le> kv_filter ev \<and> kv_filter ev < 2 ^ 15 \<and> fits_long (kv_data ev)"

lemma num_between_word:
  assumes "lo \<le> 0" and "2 ^ LENGTH('a) - 1 \<le> hi"
  shows "num_between lo hi (VInt (uint (w :: 'a::len word))) = Inr (uint w)"
proof -
  have "lo \<le> uint w" using assms(1) uint_ge_0 [of w] by linarith
  moreover have "uint w \<le> hi" using assms(2) uint_lt2p [of w] by linarith
  ultimately show ?thesis by (simp add: num_between_def)
qed

lemma six2kevent_args:
  assumes "kev_ok ev"
  shows "six2kevent (kevent_args ev) = Inr ev"
  using assms
  by (simp add: six2kevent_def kevent_args_def NUM2ULONG_def NUM2USHORT_def NUM2UINT_def num_between_word
      NUM2SHORT_def NUM2LONG_def num_between_def [of _ _ "VInt (kv_filter ev)"]
      num_between_def [of _ _ "VInt (kv_data ev)"] kev_ok_def fits_long_def)

lemma ary2eventlist_run:
  assumes "heap s p = Some b" and "ptr b = P_kpt k" and "kq_room b (i + length evs)" and "list_all kev_ok evs"
    and "i \<le> length (kq_events k)"
  shows "ary2eventlist True p i (map (\<lambda>ev. VStruct (kevent_args ev)) evs) s =
     Some (Inr (), s\<lparr>heap := (heap s)(p \<mapsto> b\<lparr>ptr :=
       P_kpt (k\<lparr>kq_events := take i (kq_events k) @ evs @ drop (i + length evs) (kq_events k)\<rparr>)\<rparr>)\<rparr>)"
  using assms
proof (induction evs arbitrary: s b k i)
  case Nil
  then show ?case by (simp add: run_simps fun_upd_idem)
next
  case (Cons ev evs)
  let ?k = "k\<lparr>kq_events := take i (kq_events k) @ [ev] @ drop (i + 1) (kq_events k)\<rparr>"
  let ?s = "s\<lparr>heap := (heap s)(p \<mapsto> b\<lparr>ptr := P_kpt ?k\<rparr>)\<rparr>"
  have ev: "ev_set_struct True (kevent_args ev) = Inr ev"
    using Cons.prems six2kevent_args [of ev] by (simp add: ev_set_struct_def) (simp add: kevent_args_def)
  have "kq_room b (i + 1)" by (rule kq_room_mono [OF Cons.prems(3)]) simp
  then have one: "unpack_event True p i (VStruct (kevent_args ev)) s = Some (Inr (), ?s)"
    using Cons.prems(1,2) put_events_run [of s p b k i "[ev]"] by (simp add: unpack_event_def run_simps ev)
  have room: "kq_room (b\<lparr>ptr := P_kpt ?k\<rparr>) (Suc i + length evs)" using Cons.prems(3) by (simp add: kq_room_def)
  have ok: "list_all kev_ok evs" and len: "Suc i \<le> length (kq_events ?k)" using Cons.prems(4,5) by simp_all
  have h: "heap ?s p = Some (b\<lparr>ptr := P_kpt ?k\<rparr>)" "ptr (b\<lparr>ptr := P_kpt ?k\<rparr>) = P_kpt ?k" by simp_all
  note rest = Cons.IH [OF h room ok len]
  have eq: "?s\<lparr>heap := (heap ?s)(p \<mapsto> b\<lparr>ptr := P_kpt ?k\<rparr>\<lparr>ptr := P_kpt (?k\<lparr>kq_events := es\<rparr>)\<rparr>)\<rparr> =
      s\<lparr>heap := (heap s)(p \<mapsto> b\<lparr>ptr := P_kpt (k\<lparr>kq_events := es\<rparr>)\<rparr>)\<rparr>" for es by simp
  have evs: "take (Suc i) (kq_events ?k) @ evs @ drop (Suc i + length evs) (kq_events ?k) =
      take i (kq_events k) @ (ev # evs) @ drop (i + length (ev # evs)) (kq_events k)"
    using Cons.prems(5) by (simp add: min_def add.commute)
  show ?case
    by (simp only: list.map ary2eventlist.simps bindE_run one option.case prod.case sum.case rest eq evs)
qed

section \<open>Restarting after signals\<close>

interpretation kq_restart: restart_loop
  "bindE (get_kpt p) (\<lambda>kpt. rb_sp_fd_region V (nogvl_kevent Q p) (kq_fd kpt))" "kevent_resume_p V x p"
  "kevent_loop V Q x p" for V Q x p
  by unfold_locales (simp add: kevent_loop_def bindE_assoc)

lemma nogvl_kevent_negative:
  assumes "nogvl_kevent Q p s = Some (Inr n, t)" and "n < 0"
  obtains k :: kq_per_thread and er e' where "sys_kevent Q (kq_fd k) (take (nat (kq_nchanges k)) (kq_events k)) (kq_nevents k) (kq_ts k) (env s)
      = (Inl er, e')" and "t = s\<lparr>env := e'\<lparr>errno := er\<rparr>\<rparr>"
proof -
  from assms(1) obtain k where g: "get_kpt p s = Some (Inr k, s)"
    by (auto simp: nogvl_kevent_def get_kpt_def deref_def run_simps split: option.splits sum.splits payload.splits)
  obtain r e' where w: "sys_kevent Q (kq_fd k) (take (nat (kq_nchanges k)) (kq_events k)) (kq_nevents k) (kq_ts k) (env s)
      = (r, e')" by fastforce
  show thesis
  proof (cases r)
    case (Inl er)
    with assms(1) g w have "t = s\<lparr>env := e'\<lparr>errno := er\<rparr>\<rparr>"
      by (simp add: nogvl_kevent_def run_simps syscall_def envE_def set_errno_def split: if_splits)
    with Inl w that show ?thesis by blast
  next
    case (Inr evs)
    with assms g w show ?thesis
      by (auto simp: nogvl_kevent_def run_simps syscall_def envE_def split: option.splits sum.splits if_splits)
  qed
qed

text \<open>A wait that gives a negative number failed in the kernel, and \<open>errno\<close> says why.\<close>

lemma kevent_wait_negative:
  assumes "bindE (get_kpt p) (\<lambda>kpt. rb_sp_fd_region V (nogvl_kevent Q p) (kq_fd kpt)) s = Some (Inr n, u)" and "n < 0"
  obtains fd chg nev t er e' where "sys_kevent Q fd chg nev t (env s) = (Inl er, e')"
    and "env u = (snd (vm_check_ints V (e'\<lparr>errno := er\<rparr>)))\<lparr>errno := er\<rparr>"
proof -
  from assms(1) obtain k s0 where g: "get_kpt p s = Some (Inr k, s0)"
    and r: "rb_sp_fd_region V (nogvl_kevent Q p) (kq_fd k) s0 = Some (Inr n, u)" by (rule bindE_Inr_cases)
  from r obtain w where w: "nogvl_kevent Q p s = Some (Inr n, w)"
    and u: "u = w\<lparr>env := (snd (vm_check_ints V (env w)))\<lparr>errno := errno (env w)\<rparr>\<rparr>"
    unfolding rb_sp_fd_region_def get_kpt_Inr(1) [OF g] by (rule without_gvl_Inr)
  obtain k' :: kq_per_thread and er e' where
      "sys_kevent Q (kq_fd k') (take (nat (kq_nchanges k')) (kq_events k')) (kq_nevents k') (kq_ts k') (env s) = (Inl er, e')"
      and "w = s\<lparr>env := e'\<lparr>errno := er\<rparr>\<rparr>" using w assms(2) by (rule nogvl_kevent_negative)
  with u show thesis by (intro that) simp_all
qed

lemma kevent_resume_p_errno:
  "kevent_resume_p V x p s = Some (Inr True, t) \<Longrightarrow> errno (env s) = EINTR"
  by (auto simp: kevent_resume_p_def kq_fd_check_def get_errno_def set_errno_def run_simps
      split: option.splits sum.splits if_splits)

lemma calm_kpt: "calm \<mu> (get_kpt p)" "calm \<mu> (upd_kpt p f)"
  by (auto simp: calm_def upd_kpt_def get_kpt_def deref_def set_ptr_def store_def run_simps
      split: option.splits payload.splits)

lemma calm_kevent_resume_p:
  assumes V: "vm_calm \<mu> V"
  shows "calm \<mu> (kevent_resume_p V x p)"
proof -
  from V have "calm \<mu> (envE (vm_clock_gettime V))" by (intro calm_envE) (simp add: vm_calm_def)
  then show ?thesis
    unfolding kevent_resume_p_def kq_fd_check_def clock_gettime_def
    by (intro calm_intros calm_kpt calm_rb_sp_fileno [OF V] calm_set_errno [OF V])
qed

lemma total_kpt [total_intros]: "total (get_kpt p)" "total (upd_kpt p f)" "total (put_events p i evs)"
  by (auto simp: total_def get_kpt_def upd_kpt_def put_events_def deref_def set_ptr_def store_def run_simps
      split: option.splits payload.splits sum.splits)

lemma total_nogvl_kevent [total_intros]: "total (nogvl_kevent Q p)"
  unfolding nogvl_kevent_def by (intro total_intros)

lemma total_kevent_resume_p [total_intros]: "total (kevent_resume_p V x p)"
  unfolding kevent_resume_p_def kq_fd_check_def by (intro total_intros)

section \<open>The changes of an interrupted call\<close>

text \<open>The number of changes the buffer announces.\<close>

definition nchg :: "nat \<Rightarrow> 'k st \<Rightarrow> int option" where
  "nchg p s = (case heap s p of None \<Rightarrow> None | Some b \<Rightarrow> (case ptr b of P_kpt k \<Rightarrow> Some (kq_nchanges k) | _ \<Rightarrow> None))"

lemma keeps_bufs_nchg: "keeps bufs m \<Longrightarrow> keeps (nchg p) m"
  by (simp add: keeps_def bufs_def nchg_def)

lemma keeps_nchg_kpt:
  "keeps f (get_kpt p)" "(\<And>k. kq_nchanges (g k) = kq_nchanges k) \<Longrightarrow> keeps (nchg p) (upd_kpt p g)"
  "keeps (nchg p) (put_events p i evs)"
  by (auto simp: keeps_def nchg_def upd_kpt_def put_events_def get_kpt_def deref_def set_ptr_def store_def run_simps
      split: option.splits payload.splits if_splits)

lemma keeps_nchg_wait:
  "keeps (nchg p) (bindE (get_kpt p) (\<lambda>kpt. rb_sp_fd_region V (nogvl_kevent Q p) (kq_fd kpt)))"
  unfolding rb_sp_fd_region_def without_gvl_def nogvl_kevent_def
  by (intro keeps_bindE keeps_nchg_kpt keeps_if keeps_case_option keeps_ret keeps_throw keeps_rb_raise keeps_get_errno
      keeps_bufs_nchg [OF keeps_syscall] keeps_bufs_nchg [OF keeps_envE] keeps_bufs_nchg [OF keeps_set_errno])

lemma nchg_upd_kpt: "upd_kpt p f s = Some (Inr r, t) \<Longrightarrow> (\<And>k. kq_nchanges (f k) = 0) \<Longrightarrow> nchg p t = Some 0"
  by (auto simp: nchg_def upd_kpt_def get_kpt_def deref_def set_ptr_def store_def run_simps
      split: option.splits payload.splits if_splits)

lemma kevent_resume_p_nchg:
  assumes "kevent_resume_p V x p s = Some (Inr True, t)"
  shows "nchg p t = Some 0"
proof -
  let ?rest = "bindE (get_kpt p) (\<lambda>kpt. if kq_ts kpt = None then ret True else bindE (clock_gettime V) (\<lambda>now.
         if expired now x then ret False
         else bindE (upd_kpt p (kq_ts_update (\<lambda>_. Some (tssub x now)))) (\<lambda>_. ret True)))"
  have k: "keeps (nchg p) ?rest"
    by (intro keeps_bindE keeps_nchg_kpt keeps_if keeps_ret keeps_bufs_nchg [OF keeps_clock_gettime]) simp
  obtain u where "bindE get_errno (\<lambda>e. if e \<noteq> EINTR then ret False
      else bindE (upd_kpt p (kq_nchanges_update (\<lambda>_. 0))) (\<lambda>_. ?rest)) u = Some (Inr True, t)"
    using assms unfolding kevent_resume_p_def by (rule bindE_Inr_cases)
  then have "bindE (upd_kpt p (kq_nchanges_update (\<lambda>_. 0))) (\<lambda>_. ?rest) u = Some (Inr True, t)"
    unfolding get_errno_def bindE_readS by (simp add: ret_run split: if_splits)
  then obtain y v where "upd_kpt p (kq_nchanges_update (\<lambda>_. 0)) u = Some (Inr y, v)"
    and "?rest v = Some (Inr True, t)" by (rule bindE_Inr_cases)
  from nchg_upd_kpt [OF this(1)] keepsD [OF k this(2)] show ?thesis by simp
qed

text \<open>A kqueue for which every changelist is empty.\<close>

definition no_changes :: "'k kqueue_sys \<Rightarrow> 'k kqueue_sys" where
  "no_changes Q = Q\<lparr>sys_kevent := (\<lambda>fd chg. sys_kevent Q fd [])\<rparr>"

lemma nogvl_kevent_no_changes:
  assumes "nchg p s = Some 0"
  shows "nogvl_kevent Q p s = nogvl_kevent (no_changes Q) p s"
  using assms
  by (auto simp: nchg_def nogvl_kevent_def no_changes_def get_kpt_def deref_def run_simps
      split: option.splits payload.splits)

lemma kevent_wait_no_changes:
  assumes "nchg p s = Some 0"
  shows "bindE (get_kpt p) (\<lambda>kpt. rb_sp_fd_region V (nogvl_kevent Q p) (kq_fd kpt)) s =
     bindE (get_kpt p) (\<lambda>kpt. rb_sp_fd_region V (nogvl_kevent (no_changes Q) p) (kq_fd kpt)) s"
  using nogvl_kevent_no_changes [OF assms, of Q] assms
  by (auto simp: nchg_def rb_sp_fd_region_def without_gvl_def get_kpt_def deref_def bindE_run [of "readS _"] readS_run
      bindE_run [of "nogvl_kevent _ _"] bindE_assoc split: option.splits payload.splits)

section \<open>Properties\<close>

text \<open>C8: the block of \<open>kevent\<close> is called once for every event the kernel returned, in the kernel's order,
  with the six fields of the event, and the call returns their number; the block may itself use
  kqueues and epolls meanwhile.\<close>

theorem kevent_yields_kernel_events:
  assumes "tls_inv s" and "owned {p} (kq_holds mx kq_ready) s" and "get_kpt p s = Some (Inr k, s)"
    and "kevent_bounded Q" and "\<And>v. balanced (B v)"
    and "sys_kevent Q (kq_fd k) (take (nat (kq_nchanges k)) (kq_events k)) (kq_nevents k) (kq_ts k) (env s) = (Inr evs, e')"
  shows "\<exists>u. env u = e' \<and> lent u = lent s \<and>
    bindE (nogvl_kevent Q p) (kevent_result (Some B) p) s =
    bindE (yields B (map kevent_args evs)) (\<lambda>_. ret (VInt (int (length evs)))) u"
proof -
  let ?v = "s\<lparr>env := e'\<rparr>"
  from assms(2) obtain b where b: "heap s p = Some b" "buf_type b \<noteq> RB_SP_TLS_READY" "kq_holds mx kq_ready b"
    by (auto simp: owned_def)
  with get_kpt_Inr(2) [OF assms(3)] have k: "ptr b = P_kpt k" "nat (kq_nevents k) \<le> mx" "kq_ready k" "kq_room b mx"
    by (auto simp: kq_holds_def)
  have "length evs \<le> nat (kq_nevents k)" using assms(4,6) unfolding kevent_bounded_def by blast
  with k(2,4) have room: "kq_room b (0 + length evs)" by (auto intro: kq_room_mono)
  let ?k = "k\<lparr>kq_events := evs @ drop (length evs) (kq_events k)\<rparr>"
  let ?u = "?v\<lparr>heap := (heap ?v)(p \<mapsto> b\<lparr>ptr := P_kpt ?k\<rparr>)\<rparr>"
  from store_ptr_frame [of ?v p b "P_kpt ?k"] b assms(1) have fr: "tls_frame {p} ?v ?u" by simp
  have w: "nogvl_kevent Q p s = Some (Inr (int (length evs)), ?u)"
    using b(1) k(1,3) assms(6) put_events_run [of ?v p b k 0 evs] room
    by (simp add: nogvl_kevent_def run_simps assms(3) kq_ready_def syscall_def envE_def)
  have "p \<in> lent ?u" using b by (simp add: lent_def)
  then have "kq_yield (Some B) p (length evs) 0 ?u = yields B (map kevent_args evs) ?u"
    using kq_buf.loop_yields_all [where B = B, OF assms(5) tls_frame_inv [OF fr], of p "b\<lparr>ptr := P_kpt ?k\<rparr>" _ "length evs"]
    by (simp add: kpt_events_def)
  then have "bindE (nogvl_kevent Q p) (kevent_result (Some B) p) s =
      bindE (yields B (map kevent_args evs)) (\<lambda>_. ret (VInt (int (length evs)))) ?u"
    by (simp add: run_simps w kevent_result_def)
  moreover have "lent ?u = lent s" using tls_frame_lent [OF fr] by simp
  ultimately show ?thesis by (intro exI [of _ ?u]) simp
qed

text \<open>C10: changes given as an array of Kevent structs reach the kernel unchanged and in order; in
  particular what a block was given can be passed back as it is.\<close>

theorem kevent_changes_roundtrip:
  assumes "heap s p = Some b" and "ptr b = P_kpt k" and "kq_room b (length evs)" and "list_all kev_ok evs"
    and "kq_nchanges k = int (length evs)"
  shows "\<exists>u. changelist_prepare True p (VArr (map (\<lambda>ev. VStruct (kevent_args ev)) evs)) s = Some (Inr (), u) \<and>
    env u = env s \<and>
    nogvl_kevent Q p u = bindE (syscall (sys_kevent Q (kq_fd k) evs (kq_nevents k) (kq_ts k))) (\<lambda>r. case r of
         None \<Rightarrow> ret (-1)
       | Some out \<Rightarrow> bindE (put_events p 0 out) (\<lambda>_. ret (int (length out)))) u"
proof -
  let ?k = "k\<lparr>kq_events := evs @ drop (length evs) (kq_events k)\<rparr>"
  let ?u = "s\<lparr>heap := (heap s)(p \<mapsto> b\<lparr>ptr := P_kpt ?k\<rparr>)\<rparr>"
  have "changelist_prepare True p (VArr (map (\<lambda>ev. VStruct (kevent_args ev)) evs)) s = Some (Inr (), ?u)"
    using ary2eventlist_run [of s p b k 0 evs] assms by (simp add: changelist_prepare_def)
  moreover have "get_kpt p ?u = Some (Inr ?k, ?u)" by (simp add: get_kpt_def deref_def run_simps)
  then have "nogvl_kevent Q p ?u = bindE (syscall (sys_kevent Q (kq_fd k) evs (kq_nevents k) (kq_ts k))) (\<lambda>r. case r of
         None \<Rightarrow> ret (-1)
       | Some out \<Rightarrow> bindE (put_events p 0 out) (\<lambda>_. ret (int (length out)))) ?u"
    using assms(5) by (simp add: nogvl_kevent_def bindE_run [of "get_kpt p"])
  ultimately show ?thesis by (intro exI [of _ ?u]) simp
qed

text \<open>C38: a changelist that holds an array of six valid numbers is always refused with a TypeError,
  although the function that converts such an array has just stored it, and although the error
  message for an array of another length says that six-element arrays are what is expected.\<close>

theorem kevent_array_change_refused:
  assumes "heap s p = Some b" and "ptr b = P_kpt k" and "kq_room b 1" and "six2kevent xs = Inr ev" and "length xs = 6"
  shows "\<exists>u. changelist_prepare hg p (VArr (VArr xs # rest)) s =
      Some (Inl (Raise (TypeError ''unsupported type in changelist'')), u)"
  using assms put_events_run [of s p b k 0 "[ev]"]
  by (simp add: changelist_prepare_def unpack_event_def ev_set_ary_def run_simps rb_raise_def)

text \<open>C35: a call on a kqueue that has been closed raises IOError and keeps its scratch buffer for ever: the
  descriptor is looked up after the buffer was borrowed and before \<open>rb_ensure\<close> is in force.\<close>

theorem kevent_closed_keeps_buffer:
  assumes "mem_ok V" and "alloc_keeps V ios" and "tls_inv s" and "ios (env s) i = IO_closed"
    and "kevent_nchanges chl = Inr c" and "kevent_nevents (blk \<noteq> None) nev = Inr n" and "kevent_timeout tmo = Inr t"
    and "max c n \<le> kevent_limit"
  shows "\<exists>p u. sp_kevent V Q line hg [chl, nev, tmo] blk (VFile i) s = Some (Inl (Raise (IOError ''closed stream'')), u) \<and>
    p \<notin> lent s \<and> lent u = insert p (lent s)"
proof -
  let ?g = "\<lambda>p. bindE (rb_sp_fileno V (VFile i)) (\<lambda>fd. bindE (upd_kpt p (kq_fd_update (\<lambda>_. fd))) (\<lambda>_.
       rb_ensure (do_kevent V Q hg blk p) (rb_sp_puttlsbuf (Some p))))"
  have cn: "0 \<le> c" "0 \<le> n" using kevent_nchanges_nonneg [OF assms(5)] kevent_nevents_nonneg [OF assms(6)] .
  obtain p u where g: "bindE (kpt_get V line c n) (\<lambda>p.
       bindE (upd_kpt p (\<lambda>k. k\<lparr>kq_ts := t, kq_changelist := chl, kq_io := VFile i\<rparr>)) (\<lambda>_. ?g p)) s = ?g p u"
    and u: "p \<notin> lent s" "lent u = insert p (lent s)" "ios (env u) = ios (env s)"
    using kpt_borrow [where g = ?g and line = line and t = t and chl = chl and self = "VFile i", OF assms(1-3) cn assms(8)]
    by blast
  have "?g p u = Some (Inl (Raise (IOError ''closed stream'')), u)"
    using u(3) assms(4) by (simp add: bindE_run [of "rb_sp_fileno V (VFile i)"] rb_sp_fileno_file)
  with g u show ?thesis unfolding sp_kevent_args assms(5-7) sum.case by auto
qed

text \<open>C11: once a signal has interrupted the wait and the code goes on waiting, the kernel is never given
  the changes again: the rest of the call is the one on a kqueue for which every changelist is
  empty.\<close>

theorem kevent_changes_sent_once:
  assumes "bindE (get_kpt p) (\<lambda>kpt. rb_sp_fd_region V (nogvl_kevent Q p) (kq_fd kpt)) s = Some (Inr n, u)"
    and "n < 0" and "kevent_resume_p V x p u = Some (Inr True, t)"
  shows "kevent_loop V Q x p s = kevent_loop V (no_changes Q) x p t"
proof -
  let ?round = "\<lambda>Q (_ :: unit). bindE (bindE (get_kpt p) (\<lambda>kpt. rb_sp_fd_region V (nogvl_kevent Q p) (kq_fd kpt))) (\<lambda>n.
     if n < 0 then bindE (kevent_resume_p V x p) (\<lambda>again. ret (if again then Inl () else Inr n)) else ret (Inr n))"
  have loop: "kevent_loop V Q x p = loopE (?round Q) ()" for Q :: "'a kqueue_sys" by (rule kq_restart.loop_eq)
  have "?round Q () s = Some (Inr (Inl ()), t)" using assms by (simp add: run_simps)
  then have "kevent_loop V Q x p s = kevent_loop V Q x p t" unfolding loop by (rule loopE_again)
  also have "\<dots> = kevent_loop V (no_changes Q) x p t"
    unfolding loop
  proof (rule loopE_cong [where I = "\<lambda>_ s. nchg p s = Some 0"])
    show "nchg p t = Some 0" using assms(3) by (rule kevent_resume_p_nchg)
  next
    fix y :: unit and s :: "'a st"
    assume "nchg p s = Some 0"
    from kevent_wait_no_changes [OF this] show "?round Q y s = ?round (no_changes Q) y s"
      by (simp only: bindE_run [of "bindE (get_kpt p) _"])
  next
    fix y :: unit and s y' s'
    assume "?round Q y s = Some (Inr (Inl y'), s')"
    then show "nchg p s' = Some 0" by (cases rule: kq_restart.round_cases) (auto dest: kevent_resume_p_nchg)
  qed
  finally show ?thesis .
qed

text \<open>C25: the loop around \<open>kevent(2)\<close> returns if interruptions stop: when a bound on the interruptions to
  come decreases with each one and nothing else the loop does brings new ones.\<close>

theorem kevent_loop_returns:
  assumes "vm_calm \<mu> V"
    and "\<And>fd chg n t e e'. sys_kevent Q fd chg n t e = (Inl EINTR, e') \<Longrightarrow> \<mu> e' < \<mu> e"
  shows "\<exists>r t. kevent_loop V Q x p s = Some (r, t)"
proof (rule kq_restart.loop_returns [where m = "\<lambda>s. \<mu> (env s)"])
  fix s n u t
  assume w: "bindE (get_kpt p) (\<lambda>kpt. rb_sp_fd_region V (nogvl_kevent Q p) (kq_fd kpt)) s = Some (Inr n, u)"
    and n: "n < 0" and again: "kevent_resume_p V x p u = Some (Inr True, t)"
  from w n obtain fd chg nev tmo er e' where sys: "sys_kevent Q fd chg nev tmo (env s) = (Inl er, e')"
    and u: "env u = (snd (vm_check_ints V (e'\<lparr>errno := er\<rparr>)))\<lparr>errno := er\<rparr>" by (rule kevent_wait_negative)
  have "er = EINTR" using kevent_resume_p_errno [OF again] u by simp
  have "\<mu> (env t) \<le> \<mu> (env u)" by (rule calmD [OF calm_kevent_resume_p [OF assms(1)] again])
  also have "\<mu> (env u) \<le> \<mu> e'" using assms(1) unfolding u vm_calm_def by metis
  also have "\<mu> e' < \<mu> (env s)" using sys \<open>er = EINTR\<close> by (intro assms(2)) simp
  finally show "\<mu> (env t) < \<mu> (env s)" .
qed (intro total_intros)+

text \<open>An interrupted wait with a timeout: what \<open>kevent_resume_p\<close> decides and stores.\<close>

lemma kevent_resume_p_run:
  assumes "heap s p = Some b" and "ptr b = P_kpt k" and "kq_io k = VFile i" and "ios (env s) i = IO_open fd"
    and "errno (env s) = EINTR" and "kq_ts k = Some ts" and "vm_clock_gettime V (env s) = (now, e')"
  shows "kevent_resume_p V x p s = Some (Inr (\<not> expired now x), s\<lparr>heap := (heap s)(p \<mapsto> b\<lparr>ptr :=
      P_kpt (k\<lparr>kq_fd := fd, kq_nchanges := 0, kq_ts := Some (if expired now x then ts else tssub x now)\<rparr>)\<rparr>), env := e'\<rparr>)"
proof -
  have same: "(env s)\<lparr>errno := EINTR\<rparr> = env s" using assms(5) by simp
  have ts: "k\<lparr>kq_fd := fd, kq_nchanges := 0, kq_ts := Some ts\<rparr> = k\<lparr>kq_fd := fd, kq_nchanges := 0\<rparr>"
    using assms(6) by (cases k) simp
  show ?thesis
    using assms
    by (cases "expired now x") (simp_all add: same ts kevent_resume_p_def kq_fd_check_def run_simps get_errno_def set_errno_def
        get_kpt_run upd_kpt_run rb_sp_fileno_file clock_gettime_def envE_def)
qed

text \<open>Both sides of a comparison normalised, the deadline has passed when the clock says so.\<close>

lemma expired_iff:
  assumes "ts_ok a" and "ts_ok now" and "ts_ok ts" and "tv_nsec a + tv_nsec ts \<noteq> NANO_PER_SEC"
  shows "expired now (expire_time a ts) \<longleftrightarrow> ts_nanos a + ts_nanos ts < ts_nanos now"
  using assms by (auto simp: ts_ok_def ts_nanos_def expire_time_def expired_def NANO_PER_SEC_def Let_def)

lemma tssub_rest:
  assumes "ts_ok a" and "ts_ok now" and "ts_ok ts" and "\<not> expired now (expire_time a ts)"
    and "tv_nsec a + tv_nsec ts \<noteq> NANO_PER_SEC"
  shows "ts_nanos (tssub (expire_time a ts) now) = ts_nanos a + ts_nanos ts - ts_nanos now"
    and "0 \<le> tv_sec (tssub (expire_time a ts) now)" and "0 \<le> tv_nsec (tssub (expire_time a ts) now)"
    and "tv_nsec (tssub (expire_time a ts) now) < NANO_PER_SEC"
  using assms by (auto simp: ts_ok_def ts_nanos_def expire_time_def expired_def tssub_def NANO_PER_SEC_def Let_def)

text \<open>C20: after an interrupted wait (state \<open>u\<close>) the loop of \<open>do_kevent\<close> looks at the clock.  \<open>x\<close> is the
  deadline computed from the first reading \<open>a\<close> and the timeout \<open>ts\<close>.  If the clock is past \<open>a + ts\<close> the loop
  ends with the failed wait's result; otherwise it goes on waiting with a structure in the scratch
  buffer that has no changes left, the descriptor the object has now, and as timeout exactly what is
  left of \<open>ts\<close>, as a time the kernel accepts (nanoseconds below \<open>10\<^sup>9\<close>).  The one case left out is
  nanoseconds of \<open>a\<close> and \<open>ts\<close> that add up to \<open>10\<^sup>9\<close> exactly, where the code is off by one.\<close>

theorem kevent_remaining_time:
  assumes "deadline a ts s0 = Some (Inr x, s1)" and "ts_ok a" and "ts_ok ts" and "ts_ok now"
    and "tv_nsec a + tv_nsec ts \<noteq> NANO_PER_SEC"
    and "bindE (get_kpt p) (\<lambda>kpt. rb_sp_fd_region V (nogvl_kevent Q p) (kq_fd kpt)) s = Some (Inr n, u)" and "n < 0"
    and "errno (env u) = EINTR" and "heap u p = Some b" and "ptr b = P_kpt k" and "kq_ts k = Some rest0"
    and "kq_io k = VFile i" and "ios (env u) i = IO_open fd" and "vm_clock_gettime V (env u) = (now, e')"
  shows "if ts_nanos a + ts_nanos ts < ts_nanos now
    then \<exists>t. kevent_loop V Q x p s = Some (Inr n, t) \<and> env t = e'
    else \<exists>rest. ts_nanos rest = ts_nanos ts - (ts_nanos now - ts_nanos a) \<and>
      0 \<le> tv_sec rest \<and> 0 \<le> tv_nsec rest \<and> tv_nsec rest < NANO_PER_SEC \<and>
      kevent_loop V Q x p s = kevent_loop V Q x p (u\<lparr>heap := (heap u)(p \<mapsto> b\<lparr>ptr :=
        P_kpt (k\<lparr>kq_fd := fd, kq_nchanges := 0, kq_ts := Some rest\<rparr>)\<rparr>), env := e'\<rparr>)"
proof -
  have x: "x = expire_time a ts" using assms(1) by (simp add: deadline_def run_simps split: if_splits)
  note run = kevent_resume_p_run [OF assms(9,10,12,13,8,11,14), of x]
  show ?thesis
  proof (cases "expired now x")
    case True
    with kq_restart.loop_given_up [OF assms(6,7)] run expired_iff [OF assms(2,4,3,5)] show ?thesis
      by (simp add: x)
  next
    case False
    with kq_restart.loop_resumed [OF assms(6,7)] run have "kevent_loop V Q x p s = kevent_loop V Q x p (u\<lparr>heap := (heap u)(p \<mapsto>
        b\<lparr>ptr := P_kpt (k\<lparr>kq_fd := fd, kq_nchanges := 0, kq_ts := Some (tssub x now)\<rparr>)\<rparr>), env := e'\<rparr>)" by simp
    moreover have "\<not> expired now (expire_time a ts)" using False x by simp
    ultimately show ?thesis
      using expired_iff [OF assms(2,4,3,5)] tssub_rest [OF assms(2,4,3) _ assms(5)]
      by (auto simp: x intro!: exI [of _ "tssub x now"])
  qed
qed

text \<open>The comparison in the computation of the deadline is off by one: if the nanoseconds add up to
  exactly one second the deadline is not normalised, and after an interruption the kernel is given
  a timeout of \<open>10\<^sup>9\<close> nanoseconds, which it refuses.\<close>

theorem kevent_deadline_not_normalised:
  assumes "tv_nsec a + tv_nsec ts = NANO_PER_SEC" and "tv_nsec b = 0" and "tv_sec b \<le> tv_sec a + tv_sec ts"
  shows "tv_nsec (expire_time a ts) = NANO_PER_SEC \<and> \<not> expired b (expire_time a ts) \<and>
    tv_nsec (tssub (expire_time a ts) b) = NANO_PER_SEC"
  using assms by (auto simp: expire_time_def expired_def tssub_def NANO_PER_SEC_def Let_def)

section \<open>The properties at concrete inputs\<close>

definition sample_kpt :: kq_per_thread where
  "sample_kpt = \<lparr>kq_io = VFile 0, kq_changelist = VNil, kq_fd = 5, kq_nchanges = 1, kq_nevents = 4, kq_capa = 4,
     kq_ts = None, kq_events = [sample_kev]\<rparr>"

definition sample_kq_buf :: rb_sp_tlsbuf where
  "sample_kq_buf = \<lparr>capa = 200, buf_type = RB_SP_TLS_INUSE, ptr = P_kpt sample_kpt\<rparr>"

definition sample_kq_st :: "nat \<Rightarrow> nat st" where
  "sample_kq_st n = \<lparr>env = sample_env n, heap = [0 \<mapsto> sample_kq_buf], brk = 1, rb_sp_key = Some 0\<rparr>"

lemma sample_kq_inv: "tls_inv (sample_kq_st n)"
  by (simp add: tls_inv_def sample_kq_st_def sample_kq_buf_def)

lemma sample_kq_heap: "heap (sample_kq_st n) 0 = Some sample_kq_buf" "ptr sample_kq_buf = P_kpt sample_kpt"
  by (simp_all add: sample_kq_st_def sample_kq_buf_def)

lemma sample_kq_room: "n \<le> 4 \<Longrightarrow> kq_room sample_kq_buf n"
  by (simp add: kq_room_def sample_kq_buf_def sizeof_kq_per_thread_def sizeof_kevent_def)

lemma sample_kev_ok: "kev_ok sample_kev"
  by (simp add: kev_ok_def fits_long_def sample_kev_def)

theorem kevent_yields_kernel_events_witness:
  "\<exists>u. lent u = {0} \<and>
    bindE (nogvl_kevent sample_kqueue 0) (kevent_result (Some (\<lambda>v. ret VNil)) 0) (sample_kq_st 0) =
    bindE (yields (\<lambda>v. ret VNil) [kevent_args sample_kev]) (\<lambda>_. ret (VInt 1)) u"
proof -
  have own: "owned {0} (kq_holds 4 kq_ready) (sample_kq_st 0)"
    using sample_kq_room [of 4]
    by (simp add: owned_def kq_holds_def sample_kq_heap kq_ready_def sample_kpt_def) (simp add: sample_kq_buf_def)
  note g = get_kpt_run [OF sample_kq_heap, of 0]
  have w: "sys_kevent sample_kqueue (kq_fd sample_kpt) (take (nat (kq_nchanges sample_kpt)) (kq_events sample_kpt))
      (kq_nevents sample_kpt) (kq_ts sample_kpt) (env (sample_kq_st 0)) = (Inr [sample_kev], sample_env 0)"
    by (simp add: sample_kqueue_def after_interrupts_def sample_kq_st_def sample_env_def sample_kpt_def)
  have "lent (sample_kq_st 0) = {0}" by (auto simp: lent_def sample_kq_st_def sample_kq_buf_def)
  with kevent_yields_kernel_events [where B = "\<lambda>v. ret VNil", OF sample_kq_inv own g sample_kqueue_bounded balanced_leaf w]
  show ?thesis by auto
qed

theorem kevent_changes_roundtrip_witness:
  "\<exists>u. changelist_prepare True 0 (VArr [VStruct (kevent_args sample_kev)]) (sample_kq_st 0) = Some (Inr (), u) \<and>
    env u = sample_env 0"
  using kevent_changes_roundtrip [OF sample_kq_heap, of "[sample_kev]" 0 sample_kqueue] sample_kq_room [of 1] sample_kev_ok
  by (auto simp: sample_kpt_def) (auto simp: sample_kq_st_def)

theorem kevent_array_change_refused_witness:
  "\<exists>u. changelist_prepare True 0 (VArr [VArr (kevent_args sample_kev)]) (sample_kq_st 0) =
     Some (Inl (Raise (TypeError ''unsupported type in changelist'')), u)"
  by (rule kevent_array_change_refused [OF sample_kq_heap sample_kq_room six2kevent_args [OF sample_kev_ok]])
    (simp_all add: kevent_args_def)

theorem kevent_closed_keeps_buffer_witness:
  "\<exists>p u. sp_kevent sample_vm sample_kqueue 64 True [VNil, VNil, VNil] None (VFile 3) (sample_st 0) =
     Some (Inl (Raise (IOError ''closed stream'')), u) \<and> lent u = {p}"
proof -
  have "ios (env (sample_st 0)) 3 = IO_closed" by (simp add: sample_st_def sample_env_def)
  from kevent_closed_keeps_buffer [where chl = VNil and nev = VNil and tmo = VNil and blk = None and c = 0 and n = 0
      and t = None and Q = sample_kqueue and line = 64 and hg = True, OF sample_mem_ok sample_alloc_keeps sample_pool(1) this]
  show ?thesis
    by (auto simp: kevent_nchanges_def kevent_nevents_def kevent_timeout_def kevent_limit_def sample_pool(2))
qed

lemma sample_kevent_interrupted:
  "\<exists>u t. bindE (get_kpt 0) (\<lambda>kpt. rb_sp_fd_region sample_vm (nogvl_kevent sample_kqueue 0) (kq_fd kpt)) (sample_kq_st 2) =
      Some (Inr (-1), u) \<and> kevent_resume_p sample_vm \<lparr>tv_sec = 0, tv_nsec = 0\<rparr> 0 u = Some (Inr True, t)"
  by (simp add: bindE_run [of "get_kpt _"] get_kpt_run sample_kq_heap rb_sp_fd_region_def without_gvl_def nogvl_kevent_def
      run_simps syscall_def envE_def set_errno_def get_errno_def sample_kqueue_def kevent_resume_p_def kq_fd_check_def
      upd_kpt_def get_kpt_def deref_def set_ptr_def store_def rb_sp_fileno_file sample_kq_st_def sample_kq_buf_def
      sample_kpt_def sample_defs)

theorem kevent_changes_sent_once_witness:
  "\<exists>t. kevent_loop sample_vm sample_kqueue \<lparr>tv_sec = 0, tv_nsec = 0\<rparr> 0 (sample_kq_st 2) =
     kevent_loop sample_vm (no_changes sample_kqueue) \<lparr>tv_sec = 0, tv_nsec = 0\<rparr> 0 t"
proof -
  obtain u t where "bindE (get_kpt 0) (\<lambda>kpt. rb_sp_fd_region sample_vm (nogvl_kevent sample_kqueue 0) (kq_fd kpt))
      (sample_kq_st 2) = Some (Inr (-1), u)"
    and "kevent_resume_p sample_vm \<lparr>tv_sec = 0, tv_nsec = 0\<rparr> 0 u = Some (Inr True, t)"
    using sample_kevent_interrupted by blast
  from kevent_changes_sent_once [OF this(1) _ this(2)] show ?thesis by auto
qed

theorem kevent_loop_returns_witness:
  "\<exists>r t. kevent_loop sample_vm sample_kqueue \<lparr>tv_sec = 0, tv_nsec = 0\<rparr> 0 (sample_kq_st 3) = Some (r, t)"
  by (rule kevent_loop_returns [where \<mu> = kern])
    (auto simp: vm_calm_def sample_vm_def sample_wait_def sample_kqueue_def after_interrupts_def split: if_splits)

text \<open>The wait is interrupted at 100 s by a clock that showed 99.7 s at the start; the timeout is 1.5 s.\<close>

definition sample_timed_kpt :: kq_per_thread where
  "sample_timed_kpt = sample_kpt\<lparr>kq_ts := Some \<lparr>tv_sec = 1, tv_nsec = 500000000\<rparr>\<rparr>"

definition sample_timed_st :: "nat \<Rightarrow> nat st" where
  "sample_timed_st n = (sample_kq_st n)\<lparr>heap := [0 \<mapsto> sample_kq_buf\<lparr>ptr := P_kpt sample_timed_kpt\<rparr>]\<rparr>"

lemma sample_timed_wait:
  "bindE (get_kpt 0) (\<lambda>kpt. rb_sp_fd_region sample_vm (nogvl_kevent sample_kqueue 0) (kq_fd kpt)) (sample_timed_st 1) =
      Some (Inr (-1), (sample_timed_st 0)\<lparr>env := (sample_env 0)\<lparr>errno := EINTR\<rparr>\<rparr>)"
  by (simp add: bindE_run [of "get_kpt _"] get_kpt_run rb_sp_fd_region_def without_gvl_def nogvl_kevent_def
      run_simps syscall_def envE_def set_errno_def get_errno_def sample_kqueue_def sample_timed_st_def sample_timed_kpt_def
      sample_kq_st_def sample_kpt_def sample_defs)

theorem kevent_remaining_time_witness:
  "\<exists>rest t. ts_nanos rest = 1200000000 \<and>
    kevent_loop sample_vm sample_kqueue \<lparr>tv_sec = 101, tv_nsec = 200000000\<rparr> 0 (sample_timed_st 1) =
    kevent_loop sample_vm sample_kqueue \<lparr>tv_sec = 101, tv_nsec = 200000000\<rparr> 0 t \<and>
    heap t 0 = Some (sample_kq_buf\<lparr>ptr := P_kpt (sample_timed_kpt\<lparr>kq_nchanges := 0, kq_ts := Some rest\<rparr>)\<rparr>)"
proof -
  let ?a = "\<lparr>tv_sec = 99, tv_nsec = 700000000\<rparr>" and ?ts = "\<lparr>tv_sec = 1, tv_nsec = 500000000\<rparr>"
  let ?now = "\<lparr>tv_sec = 100, tv_nsec = 0\<rparr>" and ?x = "\<lparr>tv_sec = 101, tv_nsec = 200000000\<rparr>"
  have d: "deadline ?a ?ts (sample_st 0) = Some (Inr ?x, sample_st 0)"
    by (simp add: deadline_def expire_time_def fits_long_def NANO_PER_SEC_def run_simps)
  have ok: "ts_ok ?a" "ts_ok ?ts" "ts_ok ?now" "tv_nsec ?a + tv_nsec ?ts \<noteq> NANO_PER_SEC"
    by (simp_all add: ts_ok_def NANO_PER_SEC_def)
  have fd: "sample_timed_kpt\<lparr>kq_fd := 5\<rparr> = sample_timed_kpt" by (simp add: sample_timed_kpt_def sample_kpt_def)
  have n: "(-1 :: int) < 0" by simp
  from kevent_remaining_time [OF d ok sample_timed_wait n, of "sample_kq_buf\<lparr>ptr := P_kpt sample_timed_kpt\<rparr>"
      sample_timed_kpt ?ts 0 5 "(sample_env 0)\<lparr>errno := EINTR\<rparr>"]
  obtain rest where "ts_nanos rest = 1200000000" and "kevent_loop sample_vm sample_kqueue ?x 0 (sample_timed_st 1) =
      kevent_loop sample_vm sample_kqueue ?x 0 ((sample_timed_st 0)\<lparr>heap := [0 \<mapsto> sample_kq_buf\<lparr>ptr :=
        P_kpt (sample_timed_kpt\<lparr>kq_nchanges := 0, kq_ts := Some rest\<rparr>)\<rparr>], env := (sample_env 0)\<lparr>errno := EINTR\<rparr>\<rparr>)"
    by (auto simp: ts_nanos_def sample_timed_st_def sample_timed_kpt_def sample_kpt_def sample_env_def sample_vm_def)
  then show ?thesis by (intro exI conjI) (assumption | simp)+
qed

theorem kevent_deadline_not_normalised_witness:
  "tv_nsec (tssub (expire_time \<lparr>tv_sec = 5, tv_nsec = 600000000\<rparr> \<lparr>tv_sec = 1, tv_nsec = 400000000\<rparr>)
     \<lparr>tv_sec = 6, tv_nsec = 0\<rparr>) = 1000000000"
  using kevent_deadline_not_normalised [of "\<lparr>tv_sec = 5, tv_nsec = 600000000\<rparr>" "\<lparr>tv_sec = 1, tv_nsec = 400000000\<rparr>"
      "\<lparr>tv_sec = 6, tv_nsec = 0\<rparr>"]
  by (simp add: NANO_PER_SEC_def)

end
