(* ===== verification/SP_Copy.thy ===== *)
theory SP_Copy
  imports SP_Util SP_Sample SP_Define
begin

text \<open>
  splice.c, cfr.c and sp_copy.h: \<open>splice(2)\<close>, \<open>tee(2)\<close> and \<open>copy_file_range(2)\<close> for Ruby.  The three
  functions share a loop, written out three times in the source: look up both descriptors, make
  the call, make it again if a signal interrupted it.  The loop is an interface (\<open>restarted_call\<close>)
  whose client lemma says that it implements a call that is never interrupted.
\<close>

section \<open>System calls\<close>

text \<open>
  A successful call gives the number of bytes and the offsets it leaves behind the \<open>off_t\<close> pointers
  (\<^term>\<open>None\<close> for NULL); a failed one does not touch them.
\<close>

record 'k copy_sys =
  sys_splice :: "int \<Rightarrow> int option \<Rightarrow> int \<Rightarrow> int option \<Rightarrow> 64 word \<Rightarrow> 32 word \<Rightarrow> 'k env
    \<Rightarrow> (errno + (nat \<times> int option \<times> int option)) \<times> 'k env"
  sys_tee :: "int \<Rightarrow> int \<Rightarrow> 64 word \<Rightarrow> 32 word \<Rightarrow> 'k env \<Rightarrow> (errno + nat) \<times> 'k env"
  sys_copy_file_range :: "int \<Rightarrow> int option \<Rightarrow> int \<Rightarrow> int option \<Rightarrow> 64 word \<Rightarrow> 32 word \<Rightarrow> 'k env
    \<Rightarrow> (errno + (nat \<times> int option \<times> int option)) \<times> 'k env"

record copy_args =
  ca_fd_in :: int
  ca_fd_out :: int
  ca_off_in :: "int option"
  ca_off_out :: "int option"
  ca_len :: "64 word"
  ca_flags :: "32 word"

record tee_args =
  tee_fd_in :: int
  tee_fd_out :: int
  tee_len :: "64 word"
  tee_flags :: "32 word"

section \<open>Arguments\<close>

text \<open>\<open>off_t\<close> and \<open>long\<close> are the same size, and so are \<open>size_t\<close> and \<open>unsigned long\<close>.\<close>

abbreviation NUM2OFFT :: "val \<Rightarrow> fail + int" where "NUM2OFFT \<equiv> NUM2LONG"
abbreviation NUM2SIZET :: "val \<Rightarrow> fail + 64 word" where "NUM2SIZET \<equiv> NUM2ULONG"
abbreviation SSIZET2NUM :: "int \<Rightarrow> val" where "SSIZET2NUM n \<equiv> VInt n"

definition offset_arg :: "val \<Rightarrow> fail + int option" where
  "offset_arg off = (if off = VNil then Inr None else map_sum id Some (NUM2OFFT off))"

text \<open>The descriptors are filled in before each attempt; zeros until then.\<close>

definition copy_args_of :: "val \<Rightarrow> val \<Rightarrow> val \<Rightarrow> val \<Rightarrow> fail + copy_args" where
  "copy_args_of off_in off_out len flags =
     (case offset_arg off_in of Inl e \<Rightarrow> Inl e | Inr i \<Rightarrow>
     (case offset_arg off_out of Inl e \<Rightarrow> Inl e | Inr oo \<Rightarrow>
     (case NUM2SIZET len of Inl e \<Rightarrow> Inl e | Inr l \<Rightarrow>
     (case NUM2UINT flags of Inl e \<Rightarrow> Inl e | Inr f \<Rightarrow>
       Inr \<lparr>ca_fd_in = 0, ca_fd_out = 0, ca_off_in = i, ca_off_out = oo, ca_len = l, ca_flags = f\<rparr>))))"

section \<open>splice\<close>

definition check_fileno :: "'k vm \<Rightarrow> val \<Rightarrow> ('k, int) M" where
  "check_fileno V io =
     bindE get_errno (\<lambda>saved_errno.
     bindE (rb_sp_fileno V io) (\<lambda>fd.
     bindE (set_errno saved_errno) (\<lambda>_.
     ret fd)))"

definition nogvl_splice :: "'k copy_sys \<Rightarrow> copy_args \<Rightarrow> ('k, int \<times> copy_args) M" where
  "nogvl_splice C a =
     bindE (syscall (sys_splice C (ca_fd_in a) (ca_off_in a) (ca_fd_out a) (ca_off_out a) (ca_len a) (ca_flags a))) (\<lambda>r.
     ret (case r of None \<Rightarrow> (-1, a) | Some (n, i, oo) \<Rightarrow> (int n, a\<lparr>ca_off_in := i, ca_off_out := oo\<rparr>)))"

definition splice_loop :: "'k vm \<Rightarrow> 'k copy_sys \<Rightarrow> val \<Rightarrow> val \<Rightarrow> copy_args \<Rightarrow> ('k, val) M" where
  "splice_loop V C io_in io_out = loopE (\<lambda>a.
     bindE (check_fileno V io_in) (\<lambda>fi.
     bindE (check_fileno V io_out) (\<lambda>fo.
     bindE (without_gvl V (nogvl_splice C (a\<lparr>ca_fd_in := fi, ca_fd_out := fo\<rparr>))) (\<lambda>(bytes, a).
     if bytes = 0 then ret (Inr VNil)
     else if bytes < 0 then bindE get_errno (\<lambda>e.
       if e = EINTR then ret (Inl a)
       else if e = EAGAIN then ret (Inr (VSym ''EAGAIN''))
       else rb_sys_fail ''splice'')
     else ret (Inr (SSIZET2NUM bytes))))))"

definition my_splice :: "'k vm \<Rightarrow> 'k copy_sys \<Rightarrow> val \<Rightarrow> val \<Rightarrow> val \<Rightarrow> val \<Rightarrow> val \<Rightarrow> val \<Rightarrow> ('k, val) M" where
  "my_splice V C io_in off_in io_out off_out len flags =
     bindE (liftE (copy_args_of off_in off_out len flags)) (splice_loop V C io_in io_out)"

section \<open>tee\<close>

definition nogvl_tee :: "'k copy_sys \<Rightarrow> tee_args \<Rightarrow> ('k, int) M" where
  "nogvl_tee C a = bindE (syscall (sys_tee C (tee_fd_in a) (tee_fd_out a) (tee_len a) (tee_flags a))) (\<lambda>r.
     ret (case r of None \<Rightarrow> -1 | Some n \<Rightarrow> int n))"

definition tee_loop :: "'k vm \<Rightarrow> 'k copy_sys \<Rightarrow> val \<Rightarrow> val \<Rightarrow> tee_args \<Rightarrow> ('k, val) M" where
  "tee_loop V C io_in io_out = loopE (\<lambda>a.
     bindE (check_fileno V io_in) (\<lambda>fi.
     bindE (check_fileno V io_out) (\<lambda>fo.
     bindE (without_gvl V (nogvl_tee C (a\<lparr>tee_fd_in := fi, tee_fd_out := fo\<rparr>))) (\<lambda>bytes.
     if bytes = 0 then ret (Inr VNil)
     else if bytes < 0 then bindE get_errno (\<lambda>e.
       if e = EINTR then ret (Inl (a\<lparr>tee_fd_in := fi, tee_fd_out := fo\<rparr>))
       else if e = EAGAIN then ret (Inr (VSym ''EAGAIN''))
       else rb_sys_fail ''tee'')
     else ret (Inr (SSIZET2NUM bytes))))))"

definition my_tee :: "'k vm \<Rightarrow> 'k copy_sys \<Rightarrow> val \<Rightarrow> val \<Rightarrow> val \<Rightarrow> val \<Rightarrow> ('k, val) M" where
  "my_tee V C io_in io_out len flags =
     bindE (liftE (NUM2SIZET len)) (\<lambda>l. bindE (liftE (NUM2UINT flags)) (\<lambda>f.
     tee_loop V C io_in io_out \<lparr>tee_fd_in = 0, tee_fd_out = 0, tee_len = l, tee_flags = f\<rparr>))"

section \<open>copy_file_range\<close>

definition nogvl_cfr :: "'k copy_sys \<Rightarrow> copy_args \<Rightarrow> ('k, int \<times> copy_args) M" where
  "nogvl_cfr C a =
     bindE (syscall (sys_copy_file_range C (ca_fd_in a) (ca_off_in a) (ca_fd_out a) (ca_off_out a) (ca_len a) (ca_flags a))) (\<lambda>r.
     ret (case r of None \<Rightarrow> (-1, a) | Some (n, i, oo) \<Rightarrow> (int n, a\<lparr>ca_off_in := i, ca_off_out := oo\<rparr>)))"

definition cfr_loop :: "'k vm \<Rightarrow> 'k copy_sys \<Rightarrow> val \<Rightarrow> val \<Rightarrow> copy_args \<Rightarrow> ('k, val) M" where
  "cfr_loop V C io_in io_out = loopE (\<lambda>a.
     bindE (rb_sp_fileno V io_in) (\<lambda>fi.
     bindE (rb_sp_fileno V io_out) (\<lambda>fo.
     bindE (without_gvl V (nogvl_cfr C (a\<lparr>ca_fd_in := fi, ca_fd_out := fo\<rparr>))) (\<lambda>(bytes, a).
     if bytes < 0 then bindE get_errno (\<lambda>e.
       if e = EINTR then ret (Inl a) else rb_sys_fail ''copy_file_range'')
     else ret (Inr (SSIZET2NUM bytes))))))"

definition rb_sp_cfr :: "'k vm \<Rightarrow> 'k copy_sys \<Rightarrow> val \<Rightarrow> val \<Rightarrow> val \<Rightarrow> val \<Rightarrow> val \<Rightarrow> val \<Rightarrow> ('k, val) M" where
  "rb_sp_cfr V C io_in off_in io_out off_out len flags =
     bindE (liftE (copy_args_of off_in off_out len flags)) (cfr_loop V C io_in io_out)"

section \<open>Definitions made at load time\<close>

definition F_LINUX_SPECIFIC_BASE :: int where "F_LINUX_SPECIFIC_BASE = 1024"

definition F_SETPIPE_SZ :: "hdr \<Rightarrow> int" where
  "F_SETPIPE_SZ H = (if H ''F_GETPIPE_SZ'' = None then F_LINUX_SPECIFIC_BASE + 7 else macro H ''F_SETPIPE_SZ'')"

definition F_GETPIPE_SZ :: "hdr \<Rightarrow> int" where
  "F_GETPIPE_SZ H = (if H ''F_GETPIPE_SZ'' = None then F_LINUX_SPECIFIC_BASE + 8 else macro H ''F_GETPIPE_SZ'')"

definition sleepy_penguin_init_splice :: "hdr \<Rightarrow> rb_def list" where
  "sleepy_penguin_init_splice H = [DefModule mSleepyPenguin,
     DefSingleton mSleepyPenguin ''__splice'' 6,
     DefSingleton mSleepyPenguin ''__tee'' 4,
     DefConst mSleepyPenguin ''F_MOVE'' (as_uint (macro H ''SPLICE_F_MOVE'')),
     DefConst mSleepyPenguin ''F_NONBLOCK'' (as_uint (macro H ''SPLICE_F_NONBLOCK'')),
     DefConst mSleepyPenguin ''F_MORE'' (as_uint (macro H ''SPLICE_F_MORE'')),
     DefConst mSleepyPenguin ''F_GETPIPE_SZ'' (as_uint (F_GETPIPE_SZ H)),
     DefConst mSleepyPenguin ''F_SETPIPE_SZ'' (as_uint (F_SETPIPE_SZ H))]"

definition sleepy_penguin_init_cfr :: "rb_def list" where
  "sleepy_penguin_init_cfr = [DefModule mSleepyPenguin, DefSingleton mSleepyPenguin ''__cfr'' 6]"

section \<open>Calls that are never interrupted\<close>

text \<open>Taking the VM's lock again after a call, when no pending interrupt raises.\<close>

definition served :: "'k vm \<Rightarrow> 'k env \<Rightarrow> 'k env" where
  "served V e = (snd (vm_check_ints V e))\<lparr>errno := errno e\<rparr>"

text \<open>
  The specification: make the call until it is not interrupted.  \<open>n\<close> bounds the number of attempts;
  \<^term>\<open>None\<close> is the call that is interrupted each time.
\<close>

fun uninterrupted ::
  "nat \<Rightarrow> 'k vm \<Rightarrow> ('k env \<Rightarrow> (errno + 'r) \<times> 'k env) \<Rightarrow> 'k env \<Rightarrow> ((errno + 'r) \<times> 'k env) option" where
  "uninterrupted 0 V call e = None"
| "uninterrupted (Suc n) V call e = (case call e of
       (Inr r, e') \<Rightarrow> Some (Inr r, served V e')
     | (Inl er, e') \<Rightarrow> if er = EINTR then uninterrupted n V call (served V (e'\<lparr>errno := er\<rparr>))
                    else Some (Inl er, served V (e'\<lparr>errno := er\<rparr>)))"

text \<open>No interrupt raises, and neither interrupts nor \<open>call\<close> close or open IO objects.\<close>

definition ios_stay :: "'k vm \<Rightarrow> ('k env \<Rightarrow> (errno + 'r) \<times> 'k env) \<Rightarrow> bool" where
  "ios_stay V call \<longleftrightarrow> (\<forall>e. fst (vm_check_ints V e) = None \<and> ios (snd (vm_check_ints V e)) = ios e \<and>
     ios (snd (call e)) = ios e)"

definition call_result :: "('r \<Rightarrow> val) \<Rightarrow> (errno \<Rightarrow> val option) \<Rightarrow> string \<Rightarrow> errno + 'r \<Rightarrow> fail + val" where
  "call_result finish quiet msg r = (case r of
       Inr x \<Rightarrow> Inr (finish x)
     | Inl er \<Rightarrow> (case quiet er of Some v \<Rightarrow> Inr v | None \<Rightarrow> Inl (Raise (SystemCallError er msg))))"

text \<open>
  The contract of one round.  \<open>call x fi fo\<close> is the system call with the loop variables \<open>x\<close> on the
  descriptors \<open>fi\<close> and \<open>fo\<close>; \<open>upd\<close> stores the descriptors in them.
\<close>

locale restarted_call =
  fixes V :: "'k vm" and loop :: "nat \<Rightarrow> nat \<Rightarrow> 'x \<Rightarrow> ('k, val) M"
    and call :: "'x \<Rightarrow> int \<Rightarrow> int \<Rightarrow> 'k env \<Rightarrow> (errno + 'r) \<times> 'k env" and upd :: "'x \<Rightarrow> int \<Rightarrow> int \<Rightarrow> 'x"
    and finish :: "'r \<Rightarrow> val" and quiet :: "errno \<Rightarrow> val option" and msg :: string
  assumes call_upd: "call (upd x fi fo) = call x"
    and loop_done: "ios (env s) i = IO_open fi \<Longrightarrow> ios (env s) j = IO_open fo \<Longrightarrow> call x fi fo (env s) = (Inr r, e') \<Longrightarrow>
      fst (vm_check_ints V e') = None \<Longrightarrow> loop i j x s = Some (Inr (finish r), s\<lparr>env := served V e'\<rparr>)"
    and loop_again: "ios (env s) i = IO_open fi \<Longrightarrow> ios (env s) j = IO_open fo \<Longrightarrow>
      call x fi fo (env s) = (Inl EINTR, e') \<Longrightarrow> fst (vm_check_ints V (e'\<lparr>errno := EINTR\<rparr>)) = None \<Longrightarrow>
      loop i j x s = loop i j (upd x fi fo) (s\<lparr>env := served V (e'\<lparr>errno := EINTR\<rparr>)\<rparr>)"
    and loop_error: "ios (env s) i = IO_open fi \<Longrightarrow> ios (env s) j = IO_open fo \<Longrightarrow>
      call x fi fo (env s) = (Inl er, e') \<Longrightarrow> er \<noteq> EINTR \<Longrightarrow> fst (vm_check_ints V (e'\<lparr>errno := er\<rparr>)) = None \<Longrightarrow>
      loop i j x s = Some (call_result finish quiet msg (Inl er), s\<lparr>env := served V (e'\<lparr>errno := er\<rparr>)\<rparr>)"
    and loop_closed: "ios (env s) i = IO_closed \<Longrightarrow> loop i j x s = Some (Inl (Raise (IOError ''closed stream'')), s)"
begin

lemma loop_implements:
  assumes "ios_stay V (call x fi fo)" and "ios (env s) i = IO_open fi" and "ios (env s) j = IO_open fo"
    and "uninterrupted n V (call x fi fo) (env s) = Some (r, e')"
  shows "loop i j x s = Some (call_result finish quiet msg r, s\<lparr>env := e'\<rparr>)"
  using assms
proof (induction n arbitrary: x s)
  case (Suc n)
  obtain a e where c: "call x fi fo (env s) = (a, e)" by fastforce
  have none: "fst (vm_check_ints V y) = None" and keep: "ios (served V y) = ios y" for y
    using Suc.prems(1) by (simp_all add: ios_stay_def served_def)
  have e: "ios e = ios (env s)" using Suc.prems(1) c unfolding ios_stay_def by (metis snd_conv)
  show ?case
  proof (cases a)
    case (Inr y)
    with c Suc.prems loop_done [OF Suc.prems(2,3) _ none] show ?thesis by (auto simp: call_result_def)
  next
    case (Inl er)
    show ?thesis
    proof (cases "er = EINTR")
      case True
      let ?s = "s\<lparr>env := served V (e\<lparr>errno := EINTR\<rparr>)\<rparr>"
      have "loop i j x s = loop i j (upd x fi fo) ?s"
        using c Inl True by (intro loop_again [OF Suc.prems(2,3) _ none]) simp
      also have "\<dots> = Some (call_result finish quiet msg r, ?s\<lparr>env := e'\<rparr>)"
        using Suc.prems c Inl True by (intro Suc.IH) (simp_all add: call_upd keep e)
      finally show ?thesis by simp
    next
      case False
      with c Inl Suc.prems loop_error [OF Suc.prems(2,3) _ False none] show ?thesis by auto
    qed
  qed
qed simp

text \<open>The descriptor is looked up before every attempt: an IO closed by a signal handler is noticed.\<close>

lemma loop_closed_meanwhile:
  assumes "ios (env s) i = IO_open fi" and "ios (env s) j = IO_open fo" and "call x fi fo (env s) = (Inl EINTR, e')"
    and "fst (vm_check_ints V (e'\<lparr>errno := EINTR\<rparr>)) = None" and "ios (served V (e'\<lparr>errno := EINTR\<rparr>)) i = IO_closed"
  shows "loop i j x s = Some (Inl (Raise (IOError ''closed stream'')), s\<lparr>env := served V (e'\<lparr>errno := EINTR\<rparr>)\<rparr>)"
  using loop_again [OF assms(1-4)] loop_closed assms(5) by simp

end

lemma errno_served [simp]: "errno (served V e) = errno e"
  by (simp add: served_def)

lemma without_gvl_calm:
  assumes "m s = Some (Inr r, t)" and "fst (vm_check_ints V (env t)) = None"
  shows "without_gvl V m s = Some (Inr r, t\<lparr>env := served V (env t)\<rparr>)"
  using assms by (simp add: without_gvl_def run_simps get_errno_def set_errno_def envE_def served_def)

lemma check_fileno_file:
  "check_fileno V (VFile i) s = Some (case ios (env s) i of
      IO_open fd \<Rightarrow> Inr fd
    | IO_closed \<Rightarrow> Inl (Raise (IOError ''closed stream''))
    | IO_uninit \<Rightarrow> Inl (Raise (IOError ''uninitialized stream'')), s)"
  by (simp add: check_fileno_def get_errno_def set_errno_def run_simps rb_sp_fileno_file split: io_state.split)

section \<open>The three calls keep the contract\<close>

lemma nogvl_splice_run:
  "sys_splice C (ca_fd_in a) (ca_off_in a) (ca_fd_out a) (ca_off_out a) (ca_len a) (ca_flags a) (env s) = (Inr (n, i, oo), e') \<Longrightarrow>
     nogvl_splice C a s = Some (Inr (int n, a\<lparr>ca_off_in := i, ca_off_out := oo\<rparr>), s\<lparr>env := e'\<rparr>)"
  "sys_splice C (ca_fd_in a) (ca_off_in a) (ca_fd_out a) (ca_off_out a) (ca_len a) (ca_flags a) (env s) = (Inl er, e') \<Longrightarrow>
     nogvl_splice C a s = Some (Inr (-1, a), s\<lparr>env := e'\<lparr>errno := er\<rparr>\<rparr>)"
  by (simp_all add: nogvl_splice_def syscall_def envE_def set_errno_def run_simps)

lemma nogvl_cfr_run:
  "sys_copy_file_range C (ca_fd_in a) (ca_off_in a) (ca_fd_out a) (ca_off_out a) (ca_len a) (ca_flags a) (env s) = (Inr (n, i, oo), e') \<Longrightarrow>
     nogvl_cfr C a s = Some (Inr (int n, a\<lparr>ca_off_in := i, ca_off_out := oo\<rparr>), s\<lparr>env := e'\<rparr>)"
  "sys_copy_file_range C (ca_fd_in a) (ca_off_in a) (ca_fd_out a) (ca_off_out a) (ca_len a) (ca_flags a) (env s) = (Inl er, e') \<Longrightarrow>
     nogvl_cfr C a s = Some (Inr (-1, a), s\<lparr>env := e'\<lparr>errno := er\<rparr>\<rparr>)"
  by (simp_all add: nogvl_cfr_def syscall_def envE_def set_errno_def run_simps)

lemma nogvl_tee_run:
  "sys_tee C (tee_fd_in a) (tee_fd_out a) (tee_len a) (tee_flags a) (env s) = (Inr n, e') \<Longrightarrow>
     nogvl_tee C a s = Some (Inr (int n), s\<lparr>env := e'\<rparr>)"
  "sys_tee C (tee_fd_in a) (tee_fd_out a) (tee_len a) (tee_flags a) (env s) = (Inl er, e') \<Longrightarrow>
     nogvl_tee C a s = Some (Inr (-1), s\<lparr>env := e'\<lparr>errno := er\<rparr>\<rparr>)"
  by (simp_all add: nogvl_tee_def syscall_def envE_def set_errno_def run_simps)

text \<open>What the calls give to Ruby: the number of bytes, nil at the end of the input and \<open>:EAGAIN\<close>, or the
  number of bytes only.\<close>

definition bytes_or_nil :: "nat \<Rightarrow> val" where
  "bytes_or_nil n = (if n = 0 then VNil else VInt (int n))"

definition quiet_EAGAIN :: "errno \<Rightarrow> val option" where
  "quiet_EAGAIN e = (if e = EAGAIN then Some (VSym ''EAGAIN'') else None)"

text \<open>The loop as the three functions write it, and that it keeps the contract.\<close>

locale copy_loop =
  fixes V :: "'k vm" and lookup :: "val \<Rightarrow> ('k, int) M" and attempt :: "'x \<Rightarrow> ('k, int \<times> 'x) M"
    and call :: "'x \<Rightarrow> int \<Rightarrow> int \<Rightarrow> 'k env \<Rightarrow> (errno + 'r) \<times> 'k env" and upd :: "'x \<Rightarrow> int \<Rightarrow> int \<Rightarrow> 'x"
    and bytes :: "'r \<Rightarrow> nat" and leave :: "'x \<Rightarrow> 'r \<Rightarrow> 'x"
    and give :: "nat \<Rightarrow> val" and quiet :: "errno \<Rightarrow> val option" and msg :: string
    and loop :: "val \<Rightarrow> val \<Rightarrow> 'x \<Rightarrow> ('k, val) M"
  assumes lookup_file: "lookup (VFile i) s = Some (case ios (env s) i of
        IO_open fd \<Rightarrow> Inr fd
      | IO_closed \<Rightarrow> Inl (Raise (IOError ''closed stream''))
      | IO_uninit \<Rightarrow> Inl (Raise (IOError ''uninitialized stream'')), s)"
    and sys_upd: "call (upd x fi fo) = call x"
    and attempt_ok: "call x fi fo (env s) = (Inr r, e') \<Longrightarrow>
      attempt (upd x fi fo) s = Some (Inr (int (bytes r), leave (upd x fi fo) r), s\<lparr>env := e'\<rparr>)"
    and attempt_fails: "call x fi fo (env s) = (Inl er, e') \<Longrightarrow>
      attempt (upd x fi fo) s = Some (Inr (-1, upd x fi fo), s\<lparr>env := e'\<lparr>errno := er\<rparr>\<rparr>)"
    and loop_eq: "loop io_in io_out = loopE (\<lambda>x.
      bindE (lookup io_in) (\<lambda>fi. bindE (lookup io_out) (\<lambda>fo. bindE (without_gvl V (attempt (upd x fi fo))) (\<lambda>r.
      if fst r < 0 then bindE get_errno (\<lambda>e. if e = EINTR then ret (Inl (snd r))
        else (case quiet e of Some v \<Rightarrow> ret (Inr v) | None \<Rightarrow> rb_sys_fail msg))
      else ret (Inr (give (nat (fst r))))))))"
begin

lemma round_ok:
  assumes "ios (env s) i = IO_open fi" and "ios (env s) j = IO_open fo" and "call x fi fo (env s) = (Inr r, e')"
    and "fst (vm_check_ints V e') = None"
  shows "loop (VFile i) (VFile j) x s = Some (Inr (give (bytes r)), s\<lparr>env := served V e'\<rparr>)"
  unfolding loop_eq
  using without_gvl_calm [where V = V and m = "attempt (upd x fi fo)" and s = s, OF attempt_ok [OF assms(3)]] assms
  by (intro loopE_stop) (simp add: run_simps lookup_file)

lemma round_failed:
  assumes "ios (env s) i = IO_open fi" and "ios (env s) j = IO_open fo" and "call x fi fo (env s) = (Inl er, e')"
    and "fst (vm_check_ints V (e'\<lparr>errno := er\<rparr>)) = None"
  shows "loop (VFile i) (VFile j) x s = (if er = EINTR
      then loop (VFile i) (VFile j) (upd x fi fo) (s\<lparr>env := served V (e'\<lparr>errno := er\<rparr>)\<rparr>)
      else Some (call_result (\<lambda>r. give (bytes r)) quiet msg (Inl er), s\<lparr>env := served V (e'\<lparr>errno := er\<rparr>)\<rparr>))"
proof -
  note w = without_gvl_calm [where V = V and m = "attempt (upd x fi fo)" and s = s, OF attempt_fails [OF assms(3)]]
  show ?thesis
  proof (cases "er = EINTR")
    case True
    with w assms show ?thesis
      unfolding loop_eq by (simp, intro loopE_again) (simp add: run_simps lookup_file get_errno_def)
  next
    case False
    with w assms show ?thesis
      unfolding loop_eq
      by (cases "quiet er") (auto intro!: loopE_stop loopE_raise
          simp: run_simps lookup_file get_errno_def call_result_def rb_sys_fail_def rb_raise_def)
  qed
qed

end

sublocale copy_loop \<subseteq> restarted_call V "\<lambda>i j. loop (VFile i) (VFile j)" call upd "\<lambda>r. give (bytes r)" quiet msg
  by unfold_locales
    (simp_all add: sys_upd round_ok round_failed, simp add: loop_eq lookup_file run_simps loopE_raise)

definition splice_sys :: "'k copy_sys \<Rightarrow> copy_args \<Rightarrow> int \<Rightarrow> int \<Rightarrow> 'k env \<Rightarrow> (errno + (nat \<times> int option \<times> int option)) \<times> 'k env" where
  "splice_sys C a fi fo = sys_splice C fi (ca_off_in a) fo (ca_off_out a) (ca_len a) (ca_flags a)"

definition cfr_sys :: "'k copy_sys \<Rightarrow> copy_args \<Rightarrow> int \<Rightarrow> int \<Rightarrow> 'k env \<Rightarrow> (errno + (nat \<times> int option \<times> int option)) \<times> 'k env" where
  "cfr_sys C a fi fo = sys_copy_file_range C fi (ca_off_in a) fo (ca_off_out a) (ca_len a) (ca_flags a)"

definition tee_sys :: "'k copy_sys \<Rightarrow> tee_args \<Rightarrow> int \<Rightarrow> int \<Rightarrow> 'k env \<Rightarrow> (errno + nat) \<times> 'k env" where
  "tee_sys C a fi fo = sys_tee C fi fo (tee_len a) (tee_flags a)"

lemma sys_upd_fds:
  "splice_sys C (a\<lparr>ca_fd_in := fi, ca_fd_out := fo\<rparr>) = splice_sys C a"
  "cfr_sys C (a\<lparr>ca_fd_in := fi, ca_fd_out := fo\<rparr>) = cfr_sys C a"
  "tee_sys C (b\<lparr>tee_fd_in := fi, tee_fd_out := fo\<rparr>) = tee_sys C b"
  by (simp_all add: fun_eq_iff splice_sys_def cfr_sys_def tee_sys_def)

lemma quiet_EAGAIN_case:
  "(case quiet_EAGAIN e of None \<Rightarrow> rb_sys_fail msg | Some v \<Rightarrow> ret (Inr v)) =
   (if e = EAGAIN then ret (Inr (VSym ''EAGAIN'')) else rb_sys_fail msg)"
  by (simp add: quiet_EAGAIN_def)

lemma bytes_or_nil_if:
  "(if n = 0 then ret (Inr VNil) else if n < 0 then m else ret (Inr (SSIZET2NUM n))) =
   (if n < 0 then m else ret (Inr (bytes_or_nil (nat n))))"
  by (auto simp: bytes_or_nil_def)

lemma without_gvl_map: "bindE (without_gvl V (bindE m (\<lambda>n. ret (f n)))) g = bindE (without_gvl V m) (\<lambda>n. g (f n))"
  by (rule ext) (auto simp: without_gvl_def run_simps envE_def get_errno_def set_errno_def rb_raise_def
      split: option.splits sum.splits)

interpretation splice_call: copy_loop V "check_fileno V" "nogvl_splice C" "splice_sys C"
  "\<lambda>a fi fo. a\<lparr>ca_fd_in := fi, ca_fd_out := fo\<rparr>" fst "\<lambda>a r. a\<lparr>ca_off_in := fst (snd r), ca_off_out := snd (snd r)\<rparr>"
  bytes_or_nil quiet_EAGAIN "''splice''" "splice_loop V C" for V C
  by unfold_locales
    (auto simp: check_fileno_file sys_upd_fds splice_sys_def nogvl_splice_run splice_loop_def bytes_or_nil_if
      quiet_EAGAIN_case case_prod_unfold cong: if_cong)

interpretation cfr_call: copy_loop V "rb_sp_fileno V" "nogvl_cfr C" "cfr_sys C"
  "\<lambda>a fi fo. a\<lparr>ca_fd_in := fi, ca_fd_out := fo\<rparr>" fst "\<lambda>a r. a\<lparr>ca_off_in := fst (snd r), ca_off_out := snd (snd r)\<rparr>"
  "\<lambda>n. VInt (int n)" "\<lambda>e. None" "''copy_file_range''" "cfr_loop V C" for V C
  by unfold_locales
    (auto simp: rb_sp_fileno_file sys_upd_fds cfr_sys_def nogvl_cfr_run cfr_loop_def case_prod_unfold cong: if_cong)

interpretation tee_call: copy_loop V "check_fileno V" "\<lambda>a. bindE (nogvl_tee C a) (\<lambda>n. ret (n, a))" "tee_sys C"
  "\<lambda>a fi fo. a\<lparr>tee_fd_in := fi, tee_fd_out := fo\<rparr>" "\<lambda>n. n" "\<lambda>a r. a"
  bytes_or_nil quiet_EAGAIN "''tee''" "tee_loop V C" for V C
  by unfold_locales
    (auto simp: check_fileno_file sys_upd_fds tee_sys_def nogvl_tee_run tee_loop_def bytes_or_nil_if quiet_EAGAIN_case
      without_gvl_map bindE_run [of "nogvl_tee _ _"] ret_run cong: if_cong)

section \<open>Properties\<close>

text \<open>C15: \<open>SleepyPenguin.__splice\<close> implements a \<open>splice\<close> that is never interrupted: whatever that call gives
  after the signals, Ruby gets, namely the number of bytes, nil at the end of the input, the symbol
  \<open>:EAGAIN\<close> if it would block, and a SystemCallError for any other error.\<close>

theorem splice_implements_uninterrupted:
  assumes "ios (env s) i = IO_open fi" and "ios (env s) j = IO_open fo"
    and "copy_args_of off_in off_out len flags = Inr a" and "ios_stay V (splice_sys C a fi fo)"
    and "uninterrupted n V (splice_sys C a fi fo) (env s) = Some (r, e')"
  shows "my_splice V C (VFile i) off_in (VFile j) off_out len flags s =
        Some (call_result (\<lambda>r. bytes_or_nil (fst r)) quiet_EAGAIN ''splice'' r, s\<lparr>env := e'\<rparr>)"
  using splice_call.loop_implements assms by (simp add: my_splice_def liftE_Inr)

text \<open>\<open>SleepyPenguin.__tee\<close> implements a \<open>tee\<close> that is never interrupted, with the same results.\<close>

theorem tee_implements_uninterrupted:
  assumes "ios (env s) i = IO_open fi" and "ios (env s) j = IO_open fo"
    and "NUM2SIZET len = Inr l" and "NUM2UINT flags = Inr f" and "ios_stay V (sys_tee C fi fo l f)"
    and "uninterrupted n V (sys_tee C fi fo l f) (env s) = Some (r, e')"
  shows "my_tee V C (VFile i) (VFile j) len flags s = Some (call_result bytes_or_nil quiet_EAGAIN ''tee'' r, s\<lparr>env := e'\<rparr>)"
  using tee_call.loop_implements [where x = "\<lparr>tee_fd_in = 0, tee_fd_out = 0, tee_len = l, tee_flags = f\<rparr>" and C = C] assms
  by (simp add: my_tee_def liftE_Inr tee_sys_def)

text \<open>C16: \<open>SleepyPenguin.__cfr\<close> implements a \<open>copy_file_range\<close> that is never interrupted: Ruby gets the
  number of bytes, 0 at the end of the input, and a SystemCallError for every error, also EAGAIN.\<close>

theorem cfr_implements_uninterrupted:
  assumes "ios (env s) i = IO_open fi" and "ios (env s) j = IO_open fo"
    and "copy_args_of off_in off_out len flags = Inr a" and "ios_stay V (cfr_sys C a fi fo)"
    and "uninterrupted n V (cfr_sys C a fi fo) (env s) = Some (r, e')"
  shows "rb_sp_cfr V C (VFile i) off_in (VFile j) off_out len flags s =
        Some (call_result (\<lambda>r. VInt (int (fst r))) (\<lambda>_. None) ''copy_file_range'' r, s\<lparr>env := e'\<rparr>)"
  using cfr_call.loop_implements assms by (simp add: rb_sp_cfr_def liftE_Inr)

text \<open>The descriptors are looked up again before every attempt: when a signal handler that ran during
  an interrupted \<open>splice\<close> has closed the input, the call raises IOError and does not splice from a
  descriptor that may by now belong to another file.\<close>

theorem splice_notices_close:
  assumes "ios (env s) i = IO_open fi" and "ios (env s) j = IO_open fo"
    and "copy_args_of off_in off_out len flags = Inr a" and "splice_sys C a fi fo (env s) = (Inl EINTR, e')"
    and "fst (vm_check_ints V (e'\<lparr>errno := EINTR\<rparr>)) = None" and "ios (served V (e'\<lparr>errno := EINTR\<rparr>)) i = IO_closed"
  shows "my_splice V C (VFile i) off_in (VFile j) off_out len flags s =
    Some (Inl (Raise (IOError ''closed stream'')), s\<lparr>env := served V (e'\<lparr>errno := EINTR\<rparr>)\<rparr>)"
  using splice_call.loop_closed_meanwhile [OF assms(1,2,4,5,6)] assms(3) by (simp add: my_splice_def liftE_Inr)

section \<open>The properties at concrete inputs\<close>

definition sample_copy :: "nat copy_sys" where
  "sample_copy = \<lparr>sys_splice = (\<lambda>fi i fo oo n f. after_interrupts (if n < 9 then unat n else 9, map_option (\<lambda>x. x + 9) i, oo)),
     sys_tee = (\<lambda>fi fo n f. after_interrupts (if n < 9 then unat n else 9)),
     sys_copy_file_range = (\<lambda>fi i fo oo n f. after_interrupts (0, i, oo))\<rparr>"

lemma sample_copy_stays: "ios_stay sample_vm (splice_sys sample_copy a fi fo)" "ios_stay sample_vm (sys_tee sample_copy fi fo l f)"
  "ios_stay sample_vm (cfr_sys sample_copy a fi fo)"
  by (simp_all add: ios_stay_def splice_sys_def cfr_sys_def sample_copy_def sample_vm_def after_interrupts_def)

lemma sample_copy_args: "copy_args_of VNil VNil (VInt 100) (VInt 0) =
    Inr \<lparr>ca_fd_in = 0, ca_fd_out = 0, ca_off_in = None, ca_off_out = None, ca_len = 100, ca_flags = 0\<rparr>"
  by (simp add: copy_args_of_def offset_arg_def NUM2ULONG_def NUM2UINT_def num_between_def)

lemma sample_open: "ios (env (sample_st n)) 0 = IO_open 5"
  by (simp add: sample_st_def sample_env_def)

lemmas uninterrupted_eval = splice_sys_def cfr_sys_def sample_copy_def served_def sample_defs

theorem splice_implements_uninterrupted_witness:
  "\<exists>t. my_splice sample_vm sample_copy (VFile 0) VNil (VFile 0) VNil (VInt 100) (VInt 0) (sample_st 1) = Some (Inr (VInt 9), t)"
proof -
  let ?a = "\<lparr>ca_fd_in = 0, ca_fd_out = 0, ca_off_in = None, ca_off_out = None, ca_len = 100, ca_flags = 0\<rparr>"
  have "uninterrupted (Suc (Suc 0)) sample_vm (splice_sys sample_copy ?a 5 5) (env (sample_st 1)) =
      Some (Inr (9, None, None), (sample_env 0)\<lparr>errno := EINTR\<rparr>)" by (simp add: uninterrupted_eval)
  from splice_implements_uninterrupted [OF sample_open sample_open sample_copy_args sample_copy_stays(1) this]
  show ?thesis by (simp add: call_result_def bytes_or_nil_def)
qed

theorem tee_implements_uninterrupted_witness:
  "\<exists>t. my_tee sample_vm sample_copy (VFile 0) (VFile 0) (VInt 4) (VInt 0) (sample_st 1) = Some (Inr (VInt 4), t)"
proof -
  have "uninterrupted (Suc (Suc 0)) sample_vm (sys_tee sample_copy 5 5 4 0) (env (sample_st 1)) =
      Some (Inr 4, (sample_env 0)\<lparr>errno := EINTR\<rparr>)" by (simp add: uninterrupted_eval)
  from tee_implements_uninterrupted [OF sample_open sample_open _ _ sample_copy_stays(2) this, of "VInt 4" "VInt 0"]
  show ?thesis by (simp add: call_result_def bytes_or_nil_def NUM2ULONG_def NUM2UINT_def num_between_def)
qed

theorem cfr_implements_uninterrupted_witness:
  "\<exists>t. rb_sp_cfr sample_vm sample_copy (VFile 0) VNil (VFile 0) VNil (VInt 100) (VInt 0) (sample_st 1) = Some (Inr (VInt 0), t)"
proof -
  let ?a = "\<lparr>ca_fd_in = 0, ca_fd_out = 0, ca_off_in = None, ca_off_out = None, ca_len = 100, ca_flags = 0\<rparr>"
  have "uninterrupted (Suc (Suc 0)) sample_vm (cfr_sys sample_copy ?a 5 5) (env (sample_st 1)) =
      Some (Inr (0, None, None), (sample_env 0)\<lparr>errno := EINTR\<rparr>)" by (simp add: uninterrupted_eval)
  from cfr_implements_uninterrupted [OF sample_open sample_open sample_copy_args sample_copy_stays(3) this]
  show ?thesis by (simp add: call_result_def)
qed

text \<open>A signal handler that closes the IO object.\<close>

definition closing_vm :: "nat vm" where
  "closing_vm = sample_vm\<lparr>vm_check_ints := (\<lambda>e. (None, e\<lparr>ios := (\<lambda>_. IO_closed)\<rparr>))\<rparr>"

theorem splice_notices_close_witness:
  "\<exists>t. my_splice closing_vm sample_copy (VFile 0) VNil (VFile 0) VNil (VInt 100) (VInt 0) (sample_st 1) =
     Some (Inl (Raise (IOError ''closed stream'')), t)"
  using splice_notices_close [OF sample_open sample_open sample_copy_args, of sample_copy 1 "sample_env 0" closing_vm]
  by (auto simp: splice_sys_def sample_copy_def after_interrupts_def sample_st_def sample_env_def served_def closing_vm_def)

end
