(* ===== verification/SP_Sendfile.thy ===== *)
theory SP_Sendfile
  imports SP_Fileio SP_Copy
begin

text \<open>
  sendfile.c: \<open>SleepyPenguin.__lsf\<close> on top of \<open>linux_sendfile\<close>, which is the system call on Linux, an
  adapter for the BSD system call, or an emulation by \<open>read\<close> or \<open>pread\<close> and \<open>write\<close>.  The three
  are compared on an abstract file and socket.
\<close>

section \<open>System calls\<close>

text \<open>
  \<open>sys_bsd_sendfile filefd sockfd offset count\<close> gives the error, if any, and \<open>sbytes\<close>, which is set also
  when the call fails; \<open>lseek\<close> is relative to the current position; \<open>xmalloc\<close> gives an exception
  if there is no memory.
\<close>

record 'k sf_sys = "'k file_sys" +
  sys_sendfile :: "int \<Rightarrow> int \<Rightarrow> int option \<Rightarrow> 64 word \<Rightarrow> 'k env \<Rightarrow> (errno + (nat \<times> int option)) \<times> 'k env"
  sys_bsd_sendfile :: "int \<Rightarrow> int \<Rightarrow> int \<Rightarrow> 64 word \<Rightarrow> 'k env \<Rightarrow> (errno option \<times> int) \<times> 'k env"
  sys_lseek :: "int \<Rightarrow> int \<Rightarrow> 'k env \<Rightarrow> (errno + int) \<times> 'k env"
  sys_pread :: "int \<Rightarrow> nat \<Rightarrow> int \<Rightarrow> 'k env \<Rightarrow> (errno + 8 word list) \<times> 'k env"
  xmalloc :: "nat \<Rightarrow> 'k env \<Rightarrow> (exn + unit) \<times> 'k env"

section \<open>The three versions of \<open>linux_sendfile\<close>\<close>

text \<open>Each gives its result and the offset it leaves behind the pointer.\<close>

definition linux_sendfile :: "('k, 'z) sf_sys_scheme \<Rightarrow> int \<Rightarrow> int \<Rightarrow> int option \<Rightarrow> 64 word \<Rightarrow> ('k, int \<times> int option) M" where
  "linux_sendfile S out_fd in_fd off count = bindE (syscall (sys_sendfile S out_fd in_fd off count)) (\<lambda>r.
     ret (case r of None \<Rightarrow> (-1, off) | Some (n, off') \<Rightarrow> (int n, off')))"

definition bsd_sendfile :: "('k, 'z) sf_sys_scheme \<Rightarrow> int \<Rightarrow> int \<Rightarrow> int option \<Rightarrow> 64 word \<Rightarrow> ('k, int \<times> int option) M" where
  "bsd_sendfile S sockfd filefd off count =
     bindE (case off of
         Some x \<Rightarrow> ret x
       | None \<Rightarrow> bindE (syscall (sys_lseek S filefd 0)) (\<lambda>r. ret (case r of None \<Rightarrow> -1 | Some x \<Rightarrow> x))) (\<lambda>offset.
     bindE (envE (sys_bsd_sendfile S filefd sockfd offset count)) (\<lambda>(er, sbytes).
     bindE (case er of None \<Rightarrow> ret 0 | Some e \<Rightarrow> bindE (set_errno e) (\<lambda>_. ret (-1))) (\<lambda>rc.
     if sbytes > 0 then
       (case off of
          Some x \<Rightarrow> ret (sbytes, Some (x + sbytes))
        | None \<Rightarrow> bindE (syscall (sys_lseek S filefd sbytes)) (\<lambda>_. ret (sbytes, None)))
     else ret (rc, off))))"

definition max_read :: "64 word \<Rightarrow> nat" where
  "max_read count = unat (if count > 16384 then 16384 else count)"

text \<open>\<open>do { r = off ? pread(...) : read(...) } while (r < 0 && errno == EINTR)\<close>.\<close>

definition read_chunk :: "('k, 'z) sf_sys_scheme \<Rightarrow> int \<Rightarrow> int option \<Rightarrow> nat \<Rightarrow> ('k, 8 word list option) M" where
  "read_chunk S filefd off mx = loopE (\<lambda>_.
     bindE (case off of Some x \<Rightarrow> syscall (sys_pread S filefd mx x) | None \<Rightarrow> syscall (sys_read S filefd mx)) (\<lambda>r.
     case r of
       None \<Rightarrow> bindE get_errno (\<lambda>e. ret (if e = EINTR then Inl () else Inr None))
     | Some bs \<Rightarrow> if length bs \<le> mx then ret (Inr (Some bs)) else throw (UB ''read wrote past the buffer''))) ()"

definition pread_sendfile :: "('k, 'z) sf_sys_scheme \<Rightarrow> int \<Rightarrow> int \<Rightarrow> int option \<Rightarrow> 64 word \<Rightarrow> ('k, int \<times> int option) M" where
  "pread_sendfile S sockfd filefd off count =
     bindE (envX (xmalloc S (max_read count))) (\<lambda>_.
     bindE (read_chunk S filefd off (max_read count)) (\<lambda>r. case r of
       None \<Rightarrow> ret (-1, off)
     | Some [] \<Rightarrow> ret (0, off)
     | Some buf \<Rightarrow> bindE (syscall (sys_write S sockfd buf)) (\<lambda>w. case w of
           None \<Rightarrow> ret (-1, off)
         | Some n \<Rightarrow> ret (int n, if n > 0 then map_option (\<lambda>x. x + int n) off else off))))"

section \<open>The method\<close>

text \<open>
  \<open>sf\<close> is the version of \<open>linux_sendfile\<close> the system has.  The loop variables are the offset and
  whether a garbage collection has been tried.
\<close>

type_synonym 'k sendfile_fn = "int \<Rightarrow> int \<Rightarrow> int option \<Rightarrow> 64 word \<Rightarrow> ('k, int \<times> int option) M"

record sf_args =
  dst_fd :: int
  src_fd :: int
  sf_off :: "int option"
  sf_count :: "64 word"

definition nogvl_sf :: "'k sendfile_fn \<Rightarrow> sf_args \<Rightarrow> ('k, int \<times> sf_args) M" where
  "nogvl_sf sf a = bindE (sf (dst_fd a) (src_fd a) (sf_off a) (sf_count a)) (\<lambda>(n, off). ret (n, a\<lparr>sf_off := off\<rparr>))"

definition lsf_loop :: "'k vm \<Rightarrow> 'k sendfile_fn \<Rightarrow> val \<Rightarrow> val \<Rightarrow> sf_args \<times> bool \<Rightarrow> ('k, val) M" where
  "lsf_loop V sf dst src = loopE (\<lambda>(a, retried).
     bindE (rb_sp_fileno V src) (\<lambda>sfd.
     bindE (rb_sp_fileno V dst) (\<lambda>dfd.
     bindE (rb_sp_fd_region V (nogvl_sf sf (a\<lparr>src_fd := sfd, dst_fd := dfd\<rparr>)) dfd) (\<lambda>(bytes, a).
     if bytes < 0 then bindE get_errno (\<lambda>e.
       if e = EAGAIN then ret (Inr (VSym ''wait_writable''))
       else if (e = ENOMEM \<or> e = ENOBUFS) \<and> \<not> retried then bindE (rb_gc V) (\<lambda>_. ret (Inl (a, True)))
       else rb_sys_fail ''sendfile'')
     else ret (Inr (SSIZET2NUM bytes))))))"

definition lsf :: "'k vm \<Rightarrow> 'k sendfile_fn \<Rightarrow> val \<Rightarrow> val \<Rightarrow> val \<Rightarrow> val \<Rightarrow> ('k, val) M" where
  "lsf V sf dst src src_off count =
     bindE (liftE (offset_arg src_off)) (\<lambda>off.
     bindE (liftE (NUM2SIZET count)) (\<lambda>n.
     lsf_loop V sf dst src (\<lparr>dst_fd = 0, src_fd = 0, sf_off = off, sf_count = n\<rparr>, False)))"

definition sleepy_penguin_init_sendfile :: "rb_def list" where
  "sleepy_penguin_init_sendfile = [DefModule mSleepyPenguin, DefSingleton mSleepyPenguin ''__lsf'' 4]"

section \<open>A file and a socket\<close>

text \<open>
  The contents of the file, its position, what the socket has been sent, and how much more it takes
  before it would block.
\<close>

record sf_world =
  wfile :: "8 word list"
  wpos :: nat
  wsent :: "8 word list"
  wroom :: nat

definition wchunk :: "sf_world \<Rightarrow> nat \<Rightarrow> nat \<Rightarrow> 8 word list" where
  "wchunk w off n = take n (drop off (wfile w))"

definition wsend :: "8 word list \<Rightarrow> sf_world \<Rightarrow> sf_world" where
  "wsend bs w = w\<lparr>wsent := wsent w @ bs, wroom := wroom w - length bs\<rparr>"

text \<open>
  What the manual pages say, for a regular file and a non-blocking socket.  \<open>sendfile\<close> of Linux moves
  the offset it is given and otherwise the position of the file; that of the BSDs moves neither,
  sends up to the end of the file if the count is 0, and reports what it could send together with
  EAGAIN.
\<close>

definition linux_documented :: "(sf_world, 'z) sf_sys_scheme \<Rightarrow> bool" where
  "linux_documented S \<longleftrightarrow> (\<forall>dst src off count e. (\<forall>x. off = Some x \<longrightarrow> 0 \<le> x) \<longrightarrow> sys_sendfile S dst src off count e =
     (let w = kern e; o0 = (case off of None \<Rightarrow> wpos w | Some x \<Rightarrow> nat x);
          bs = wchunk w o0 (unat count); m = min (wroom w) (length bs) in
      if bs = [] then (Inr (0, off), e)
      else if m = 0 then (Inl EAGAIN, e)
      else (Inr (m, map_option (\<lambda>x. x + int m) off),
            e\<lparr>kern := (wsend (take m bs) w)\<lparr>wpos := (if off = None then wpos w + m else wpos w)\<rparr>\<rparr>)))"

definition lseek_documented :: "(sf_world, 'z) sf_sys_scheme \<Rightarrow> bool" where
  "lseek_documented S \<longleftrightarrow> (\<forall>fd d e. 0 \<le> d \<longrightarrow> sys_lseek S fd d e =
     (Inr (int (wpos (kern e)) + d), e\<lparr>kern := (kern e)\<lparr>wpos := wpos (kern e) + nat d\<rparr>\<rparr>))"

definition bsd_documented :: "(sf_world, 'z) sf_sys_scheme \<Rightarrow> bool" where
  "bsd_documented S \<longleftrightarrow> (\<forall>src dst off count e. 0 \<le> off \<longrightarrow> sys_bsd_sendfile S src dst off count e =
     (let w = kern e; bs = wchunk w (nat off) (if count = 0 then length (wfile w) else unat count);
          m = min (wroom w) (length bs) in
      ((if m < length bs then Some EAGAIN else None, int m), e\<lparr>kern := wsend (take m bs) w\<rparr>)))"

definition rw_documented :: "(sf_world, 'z) sf_sys_scheme \<Rightarrow> bool" where
  "rw_documented S \<longleftrightarrow>
     (\<forall>fd n off e. 0 \<le> off \<longrightarrow> sys_pread S fd n off e = (Inr (wchunk (kern e) (nat off) n), e)) \<and>
     (\<forall>fd n e. sys_read S fd n e = (let bs = wchunk (kern e) (wpos (kern e)) n in
        (Inr bs, e\<lparr>kern := (kern e)\<lparr>wpos := wpos (kern e) + length bs\<rparr>\<rparr>))) \<and>
     (\<forall>fd bs e. sys_write S fd bs e = (let m = min (wroom (kern e)) (length bs) in
        if m = 0 \<and> bs \<noteq> [] then (Inl EAGAIN, e) else (Inr m, e\<lparr>kern := wsend (take m bs) (kern e)\<rparr>))) \<and>
     (\<forall>n e. xmalloc S n e = (Inr (), e))"

lemma length_wchunk_le: "length (wchunk w o0 n) \<le> n"
  by (simp add: wchunk_def)



text \<open>The emulation: what is read, and what of it is written.\<close>

lemma read_chunk_run:
  assumes "rw_documented S" and "\<forall>x. off = Some x \<longrightarrow> 0 \<le> x"
    and "wchunk (kern (env s)) (case off of None \<Rightarrow> wpos (kern (env s)) | Some x \<Rightarrow> nat x) n = bs"
  shows "read_chunk S src off n s = Some (Inr (Some bs), s\<lparr>env := (env s)\<lparr>kern := (kern (env s))
     \<lparr>wpos := (if off = None then wpos (kern (env s)) + length bs else wpos (kern (env s)))\<rparr>\<rparr>\<rparr>)"
proof -
  have "length bs \<le> n" using assms(3) length_wchunk_le by blast
  with assms show ?thesis
    unfolding read_chunk_def by (intro loopE_stop)
      (cases off; auto simp: rw_documented_def Let_def run_simps syscall_def envE_def)
qed

lemma pread_sendfile_run:
  assumes "rw_documented S" and "\<forall>x. off = Some x \<longrightarrow> 0 \<le> x"
    and "wchunk (kern (env s)) (case off of None \<Rightarrow> wpos (kern (env s)) | Some x \<Rightarrow> nat x) (max_read count) = bs"
    and m: "min (wroom (kern (env s))) (length bs) = m"
  shows "\<exists>t. pread_sendfile S dst src off count s =
       Some (Inr (if bs = [] then 0 else if m = 0 then -1 else int m, if m = 0 then off else map_option (\<lambda>x. x + int m) off), t) \<and>
     kern (env t) = (wsend (take m bs) (kern (env s)))
       \<lparr>wpos := (if off = None then wpos (kern (env s)) + length bs else wpos (kern (env s)))\<rparr> \<and>
     (bs \<noteq> [] \<and> m = 0 \<longrightarrow> errno (env t) = EAGAIN)"
proof -
  note R = read_chunk_run [where src = src, OF assms(1-3)]
  have w: "sys_write S dst bs e = (let m = min (wroom (kern e)) (length bs) in
      if m = 0 \<and> bs \<noteq> [] then (Inl EAGAIN, e) else (Inr m, e\<lparr>kern := wsend (take m bs) (kern e)\<rparr>))"
    and x: "xmalloc S n e = (Inr (), e)" for e n bs using assms(1) by (auto simp: rw_documented_def)
  have m0: "bs = [] \<Longrightarrow> m = 0" using m by auto
  show ?thesis
    using m0 R m by (cases bs) (auto simp: pread_sendfile_def run_simps envX_def envE_def x w Let_def syscall_def set_errno_def
        wsend_def)
qed

section \<open>Properties\<close>



text \<open>C36: without an offset the emulation loses data: it has already moved the position of the file by all it
  read when the socket takes only a part, or nothing and \<open>:wait_writable\<close> is returned; the bytes in
  between are not sent and no later call will send them.\<close>

theorem pread_sendfile_loses_bytes:
  assumes "rw_documented S" and "wchunk (kern (env s)) (wpos (kern (env s))) (max_read count) = bs"
    and "wroom (kern (env s)) < length bs"
  shows "\<exists>r t. pread_sendfile S dst src None count s = Some (Inr r, t) \<and>
    fst r = (if wroom (kern (env s)) = 0 then -1 else int (wroom (kern (env s)))) \<and>
    wsent (kern (env t)) = wsent (kern (env s)) @ take (wroom (kern (env s))) bs \<and>
    wpos (kern (env t)) = wpos (kern (env s)) + length bs"
proof -
  have "min (wroom (kern (env s))) (length bs) = wroom (kern (env s))" and "bs \<noteq> []" using assms(3) by auto
  with pread_sendfile_run [where s = s and off = None and count = count and dst = dst and src = src and bs = bs, OF assms(1) _ _ refl]
    assms(2) show ?thesis by (auto simp: wsend_def)
qed

text \<open>On a BSD a count of zero sends everything up to the end of the file, where Linux sends nothing.\<close>

theorem bsd_sendfile_zero_sends_all:
  assumes "bsd_documented S" and "0 \<le> x" and "drop (nat x) (wfile (kern (env s))) = bs" and "length bs \<le> wroom (kern (env s))"
  shows "\<exists>t. bsd_sendfile S dst src (Some x) 0 s = Some (Inr (int (length bs), Some (x + int (length bs))), t) \<and>
    wsent (kern (env t)) = wsent (kern (env s)) @ bs"
proof -
  have "wchunk (kern (env s)) (nat x) (length (wfile (kern (env s)))) = bs" using assms(3) by (auto simp: wchunk_def)
  with assms have "sys_bsd_sendfile S src dst x 0 (env s) = ((None, int (length bs)), (env s)\<lparr>kern := wsend bs (kern (env s))\<rparr>)"
    unfolding bsd_documented_def Let_def by simp
  then show ?thesis by (auto simp: bsd_sendfile_def run_simps envE_def wsend_def)
qed

lemma total_sendfile:
  "total (linux_sendfile S d r off n)" "total (bsd_sendfile S d r off n)"
  unfolding linux_sendfile_def bsd_sendfile_def by (intro total_intros | simp add: case_prod_unfold)+

lemma lsf_loop_returns:
  assumes "\<And>d r off n. total (sf d r off n)"
  shows "\<exists>r t. lsf_loop V sf dst src x s = Some (r, t)"
proof -
  let ?body = "\<lambda>(a, retried). bindE (rb_sp_fileno V src) (\<lambda>sfd. bindE (rb_sp_fileno V dst) (\<lambda>dfd.
     bindE (rb_sp_fd_region V (nogvl_sf sf (a\<lparr>src_fd := sfd, dst_fd := dfd\<rparr>)) dfd) (\<lambda>(bytes, a).
     if bytes < 0 then bindE get_errno (\<lambda>e.
       if e = EAGAIN then ret (Inr (VSym ''wait_writable''))
       else if (e = ENOMEM \<or> e = ENOBUFS) \<and> \<not> retried then bindE (rb_gc V) (\<lambda>_. ret (Inl (a, True)))
       else rb_sys_fail ''sendfile'')
     else ret (Inr (SSIZET2NUM bytes)))))"
  have tot: "total (?body y)" for y
    unfolding case_prod_unfold nogvl_sf_def by (intro total_intros assms)
  have again: "\<not> snd y \<and> snd y'" if "?body y s = Some (Inr (Inl y'), t)" for y s y' t
    using that unfolding case_prod_unfold
    by (elim bindE_Inr_cases) (auto simp: run_simps get_errno_def rb_sys_fail_def rb_raise_def rb_gc_def envE_def split: if_splits)
  show ?thesis
    unfolding lsf_loop_def
  proof (rule loopE_terminates [where I = "\<lambda>_ _. True" and m = "\<lambda>y _. if snd y then 0 else 1"])
    show "\<And>y s. True \<Longrightarrow> ?body y s \<noteq> None" using tot by (simp add: total_def)
    show "\<And>y s y' t. True \<Longrightarrow> ?body y s = Some (Inr (Inl y'), t) \<Longrightarrow>
        True \<and> (if snd y' then 0 else 1) < (if snd y then 0 else (1 :: nat))" using again by fastforce
  qed simp
qed

text \<open>On Linux and on the BSDs the method always returns, whatever the kernel answers.\<close>

corollary lsf_returns:
  "(\<exists>r t. lsf V (linux_sendfile S) dst src off count s = Some (r, t)) \<and>
   (\<exists>r t. lsf V (bsd_sendfile S) dst src off count s = Some (r, t))"
proof -
  have "\<exists>r t. lsf V sf dst src off count s = Some (r, t)" if "\<And>d r off n. total (sf d r off n)" for sf
    using lsf_loop_returns [OF that]
    by (auto simp: lsf_def bindE_liftE throw_run split: sum.split)
  then show ?thesis using total_sendfile by blast
qed

section \<open>The attempts\<close>

text \<open>
  What \<open>__lsf\<close> amounts to, as a function on the environment in which \<open>send\<close> is the system call: at
  most two calls, the second only after ENOMEM or ENOBUFS and a garbage collection; the outcome is
  that of the last one, EAGAIN being a value and not an exception.
\<close>

definition sf_settled :: "(errno + nat \<times> int option) \<times> 'k env \<Rightarrow> (fail + val) \<times> 'k env" where
  "sf_settled q = (case q of
       (Inr (n, _), e) \<Rightarrow> (Inr (VInt (int n)), e)
     | (Inl er, e) \<Rightarrow> (if er = EAGAIN then Inr (VSym ''wait_writable'') else Inl (Raise (SystemCallError er ''sendfile'')),
          e\<lparr>errno := er\<rparr>))"

definition sf_outcome ::
  "'k vm \<Rightarrow> ('k env \<Rightarrow> (errno + nat \<times> int option) \<times> 'k env) \<Rightarrow> 'k env \<Rightarrow> (fail + val) \<times> 'k env" where
  "sf_outcome V send e0 = (case send e0 of
       (Inl er, e1) \<Rightarrow> if er = ENOMEM \<or> er = ENOBUFS then sf_settled (send (vm_gc V (e1\<lparr>errno := er\<rparr>)))
          else sf_settled (Inl er, e1)
     | (Inr r, e1) \<Rightarrow> sf_settled (Inr r, e1))"

lemma sf_attempt:
  assumes "\<And>e. vm_check_ints V e = (None, e)"
    and "sys_sendfile S (dst_fd a) (src_fd a) (sf_off a) (sf_count a) (env s) = (r, e1)"
  shows "rb_sp_fd_region V (nogvl_sf (linux_sendfile S) a) n s = Some (case r of
      Inl er \<Rightarrow> (Inr (-1, a), s\<lparr>env := e1\<lparr>errno := er\<rparr>\<rparr>)
    | Inr (k, off) \<Rightarrow> (Inr (int k, a\<lparr>sf_off := off\<rparr>), s\<lparr>env := e1\<rparr>))"
  using assms
  by (cases r) (auto simp: rb_sp_fd_region_def without_gvl_def nogvl_sf_def linux_sendfile_def run_simps syscall_def
      envE_def get_errno_def set_errno_def)

lemma lsf_loop_settled:
  assumes V: "\<And>e. vm_check_ints V e = (None, e)"
    and ios: "ios (env s) d = IO_open dfd" "ios (env s) i = IO_open sfd"
    and send: "sys_sendfile S dfd sfd (sf_off a) (sf_count a) (env s) = (r, e1)"
    and last: "\<not> ((r = Inl ENOMEM \<or> r = Inl ENOBUFS) \<and> \<not> retried)"
  shows "lsf_loop V (linux_sendfile S) (VFile d) (VFile i) (a, retried) s =
    Some (fst (sf_settled (r, e1)), s\<lparr>env := snd (sf_settled (r, e1))\<rparr>)"
proof -
  note run = run_simps rb_sp_fileno_file ios get_errno_def rb_sys_fail_def rb_raise_def sf_settled_def
    sf_attempt [OF V, of S "a\<lparr>src_fd := sfd, dst_fd := dfd\<rparr>" s r e1, simplified, OF send]
  show ?thesis
  proof (cases "\<exists>er. r = Inl er \<and> er \<noteq> EAGAIN")
    case True
    with last show ?thesis unfolding lsf_loop_def
      by (auto simp: sf_settled_def intro!: loopE_raise) (auto simp: run)
  next
    case False
    then show ?thesis unfolding lsf_loop_def
      by (cases r) (auto simp: sf_settled_def intro!: loopE_stop simp: run)
  qed
qed

lemma lsf_loop_again:
  assumes V: "\<And>e. vm_check_ints V e = (None, e)"
    and ios: "ios (env s) d = IO_open dfd" "ios (env s) i = IO_open sfd"
    and send: "sys_sendfile S dfd sfd (sf_off a) (sf_count a) (env s) = (Inl er, e1)"
    and er: "er = ENOMEM \<or> er = ENOBUFS"
  shows "lsf_loop V (linux_sendfile S) (VFile d) (VFile i) (a, False) s =
    lsf_loop V (linux_sendfile S) (VFile d) (VFile i) (a\<lparr>src_fd := sfd, dst_fd := dfd\<rparr>, True)
      (s\<lparr>env := vm_gc V (e1\<lparr>errno := er\<rparr>)\<rparr>)"
  unfolding lsf_loop_def
  by (rule loopE_again) (use er in \<open>auto simp: run_simps rb_sp_fileno_file ios get_errno_def rb_gc_def envE_def
      sf_attempt [OF V, of S "a\<lparr>src_fd := sfd, dst_fd := dfd\<rparr>" s "Inl er" e1, simplified, OF send]\<close>)

text \<open>C27: \<open>__lsf\<close> on Linux asks the kernel at most twice.  A first attempt that fails with ENOMEM or
  ENOBUFS is followed by one garbage collection and exactly one more attempt, with the same
  arguments; any other outcome is final.  The last attempt decides: bytes sent are returned, EAGAIN
  gives \<open>:wait_writable\<close>, any other error, a second ENOMEM included, is raised.  (No interrupt is
  pending and both IO objects stay open on their descriptors.)\<close>

theorem lsf_outcome:
  assumes "\<And>e. vm_check_ints V e = (None, e)"
    and "ios (env s) d = IO_open dfd" and "ios (env s) i = IO_open sfd"
    and "offset_arg src_off = Inr off" and "NUM2SIZET count = Inr n"
    and "\<And>e. ios (snd (sys_sendfile S dfd sfd off n e)) = ios e"
    and "\<And>e. ios (vm_gc V e) d = ios e d \<and> ios (vm_gc V e) i = ios e i"
  shows "lsf V (linux_sendfile S) (VFile d) (VFile i) src_off count s =
    (let q = sf_outcome V (sys_sendfile S dfd sfd off n) (env s) in Some (fst q, s\<lparr>env := snd q\<rparr>))"
proof -
  let ?a = "\<lparr>dst_fd = 0, src_fd = 0, sf_off = off, sf_count = n\<rparr>"
  obtain r e1 where r: "sys_sendfile S dfd sfd off n (env s) = (r, e1)" by fastforce
  have start: "lsf V (linux_sendfile S) (VFile d) (VFile i) src_off count s =
      lsf_loop V (linux_sendfile S) (VFile d) (VFile i) (?a, False) s"
    using assms(4,5) by (simp add: lsf_def run_simps)
  show ?thesis
  proof (cases "r = Inl ENOMEM \<or> r = Inl ENOBUFS")
    case False
    with lsf_loop_settled [OF assms(1-3), of S ?a r e1 False] r show ?thesis
      unfolding start by (auto simp: sf_outcome_def Let_def split: sum.split)
  next
    case True
    then obtain er where er: "r = Inl er" "er = ENOMEM \<or> er = ENOBUFS" by blast
    let ?e = "vm_gc V (e1\<lparr>errno := er\<rparr>)" and ?b = "?a\<lparr>src_fd := sfd, dst_fd := dfd\<rparr>"
    have "ios e1 = ios (env s)" using assms(6) [of "env s"] r by simp
    with assms(2,3,7) have ios: "ios (env (s\<lparr>env := ?e\<rparr>)) d = IO_open dfd" "ios (env (s\<lparr>env := ?e\<rparr>)) i = IO_open sfd"
      by simp_all
    obtain r2 e2 where r2: "sys_sendfile S dfd sfd off n ?e = (r2, e2)" by fastforce
    have "lsf_loop V (linux_sendfile S) (VFile d) (VFile i) (?a, False) s =
        lsf_loop V (linux_sendfile S) (VFile d) (VFile i) (?b, True) (s\<lparr>env := ?e\<rparr>)"
      using r er by (intro lsf_loop_again [OF assms(1-3)]) simp_all
    with lsf_loop_settled [OF assms(1) ios, of S ?b r2 e2 True] r r2 er show ?thesis
      unfolding start by (auto simp: sf_outcome_def Let_def)
  qed
qed

section \<open>The properties at concrete inputs\<close>

definition sample_sf :: "sf_world sf_sys" where
  "sample_sf = \<lparr>
     sys_read = (\<lambda>fd n e. let bs = wchunk (kern e) (wpos (kern e)) n in
        (Inr bs, e\<lparr>kern := (kern e)\<lparr>wpos := wpos (kern e) + length bs\<rparr>\<rparr>)),
     sys_write = (\<lambda>fd bs e. let m = min (wroom (kern e)) (length bs) in
        if m = 0 \<and> bs \<noteq> [] then (Inl EAGAIN, e) else (Inr m, e\<lparr>kern := wsend (take m bs) (kern e)\<rparr>)),
     sys_sendfile = (\<lambda>dst src off count e. let w = kern e; o0 = (case off of None \<Rightarrow> wpos w | Some x \<Rightarrow> nat x);
          bs = wchunk w o0 (unat count); m = min (wroom w) (length bs) in
        if bs = [] then (Inr (0, off), e)
        else if m = 0 then (Inl EAGAIN, e)
        else (Inr (m, map_option (\<lambda>x. x + int m) off),
              e\<lparr>kern := (wsend (take m bs) w)\<lparr>wpos := (if off = None then wpos w + m else wpos w)\<rparr>\<rparr>)),
     sys_bsd_sendfile = (\<lambda>src dst off count e. let w = kern e;
          bs = wchunk w (nat off) (if count = 0 then length (wfile w) else unat count); m = min (wroom w) (length bs) in
        ((if m < length bs then Some EAGAIN else None, int m), e\<lparr>kern := wsend (take m bs) w\<rparr>)),
     sys_lseek = (\<lambda>fd d e. (Inr (int (wpos (kern e)) + d), e\<lparr>kern := (kern e)\<lparr>wpos := wpos (kern e) + nat d\<rparr>\<rparr>)),
     sys_pread = (\<lambda>fd n off e. (Inr (wchunk (kern e) (nat off) n), e)),
     xmalloc = (\<lambda>n e. (Inr (), e))\<rparr>"

lemma sample_sf_documented:
  "linux_documented sample_sf" "bsd_documented sample_sf" "lseek_documented sample_sf" "rw_documented sample_sf"
  by (simp_all add: sample_sf_def linux_documented_def bsd_documented_def lseek_documented_def rw_documented_def Let_def)

text \<open>Eight bytes in the file, a socket with room for three.\<close>

definition sample_world :: sf_world where
  "sample_world = \<lparr>wfile = [1, 2, 3, 4, 5, 6, 7, 8], wpos = 1, wsent = [], wroom = 3\<rparr>"

definition sample_sf_st :: "sf_world st" where
  "sample_sf_st = \<lparr>env = \<lparr>ios = (\<lambda>_. IO_open 5), inotify_tmp = (\<lambda>_. None), errno = E_other 0, kern = sample_world\<rparr>,
     heap = Map.empty, brk = 0, rb_sp_key = None\<rparr>"

text \<open>A kernel without memory for the first \<open>k\<close> attempts; its state counts them.\<close>

definition sample_sf_full :: "nat \<Rightarrow> nat sf_sys" where
  "sample_sf_full k = \<lparr>
     sys_read = (\<lambda>fd n e. (Inr [], e)), sys_write = (\<lambda>fd bs e. (Inr 0, e)),
     sys_sendfile = (\<lambda>dst src off count e.
        (if kern e < k then Inl ENOMEM else Inr (unat count, off), e\<lparr>kern := kern e + 1\<rparr>)),
     sys_bsd_sendfile = (\<lambda>src dst off count e. ((None, 0), e)), sys_lseek = (\<lambda>fd d e. (Inr 0, e)),
     sys_pread = (\<lambda>fd n off e. (Inr [], e)), xmalloc = (\<lambda>n e. (Inr (), e))\<rparr>"

theorem lsf_outcome_witness:
  "\<exists>t u. lsf sample_vm (linux_sendfile (sample_sf_full 1)) (VFile 0) (VFile 0) VNil (VInt 9) (sample_st 0) =
      Some (Inr (VInt 9), t) \<and> kern (env t) = 2 \<and>
    lsf sample_vm (linux_sendfile (sample_sf_full 2)) (VFile 0) (VFile 0) VNil (VInt 9) (sample_st 0) =
      Some (Inl (Raise (SystemCallError ENOMEM ''sendfile'')), u) \<and> kern (env u) = 2"
proof -
  have args: "offset_arg VNil = Inr None" "NUM2SIZET (VInt 9) = Inr 9"
    by (simp_all add: offset_arg_def NUM2ULONG_def num_between_def)
  have run: "lsf sample_vm (linux_sendfile (sample_sf_full k)) (VFile 0) (VFile 0) VNil (VInt 9) (sample_st 0) =
    (let q = sf_outcome sample_vm (sys_sendfile (sample_sf_full k) 5 5 None 9) (env (sample_st 0)) in
      Some (fst q, (sample_st 0)\<lparr>env := snd q\<rparr>))" for k
    by (rule lsf_outcome [OF _ _ _ args]) (simp_all add: sample_defs sample_sf_full_def)
  show ?thesis
    unfolding run by (simp add: sf_outcome_def sf_settled_def sample_sf_full_def sample_defs)
qed



theorem pread_sendfile_loses_bytes_witness:
  "\<exists>r t. pread_sendfile sample_sf 6 5 None 5 sample_sf_st = Some (Inr r, t) \<and> fst r = 3 \<and>
    wsent (kern (env t)) = [2, 3, 4] \<and> wpos (kern (env t)) = 6"
proof -
  have "wchunk (kern (env sample_sf_st)) (wpos (kern (env sample_sf_st))) (max_read 5) = [2, 3, 4, 5, 6]"
    by (simp add: wchunk_def max_read_def sample_sf_st_def sample_world_def)
  from pread_sendfile_loses_bytes [OF sample_sf_documented(4) this, of 6 5]
  show ?thesis by (auto simp: sample_sf_st_def sample_world_def)
qed

theorem bsd_sendfile_zero_sends_all_witness:
  "\<exists>t. bsd_sendfile sample_sf 6 5 (Some 5) 0 sample_sf_st = Some (Inr (3, Some 8), t) \<and> wsent (kern (env t)) = [6, 7, 8]"
  using bsd_sendfile_zero_sends_all [OF sample_sf_documented(2), of 5 sample_sf_st "[6, 7, 8]" 6 5]
  by (simp add: sample_sf_st_def sample_world_def)

end
