(* ===== verification/SP_Init.thy ===== *)
theory SP_Init
  imports SP_Epoll SP_Eventfd SP_Timerfd SP_Inotify SP_Kevent SP_Sendfile "HOL-Library.Sublist"
begin

text \<open>
  Loading the extension: \<open>Init_sleepy_penguin_ext\<close> of init.c creates the pthread key, detects the cache
  line size and calls the initialisers of the parts the system supports.
\<close>

section \<open>Model\<close>

text \<open>
  \<open>pthread_once\<close> gives an error, or whether the routine it was given has to run now;
  \<open>pthread_key_create\<close> gives an error number or none.
\<close>

record 'k pthread_sys =
  pthread_once :: "'k env \<Rightarrow> (errno + bool) \<times> 'k env"
  pthread_key_create :: "'k env \<Rightarrow> errno option \<times> 'k env"

definition sp_once :: "'k pthread_sys \<Rightarrow> ('k, unit) M" where
  "sp_once P = bindE (envE (pthread_key_create P)) (\<lambda>err. case err of
       None \<Rightarrow> ret ()
     | Some e \<Rightarrow> bindE (set_errno e) (\<lambda>_. rb_sys_fail ''pthread_key_create''))"

text \<open>
  The definitions made, in order.  \<open>have m\<close> is whether the build found what the macro \<open>m\<close> of config.h
  stands for.  extconf.rb never defines \<open>HAVE_SYS_SIGNALFD_H\<close>, so there is nothing for signalfd.
\<close>

definition init_part :: "bool \<Rightarrow> rb_def list \<Rightarrow> rb_def list" where
  "init_part b ds = (if b then ds else [])"

definition init_definitions :: "(string \<Rightarrow> bool) \<Rightarrow> hdr \<Rightarrow> string \<Rightarrow> rb_def list" where
  "init_definitions have H version =
     [DefModule mSleepyPenguin, DefConst mSleepyPenguin ''SLEEPY_PENGUIN_VERSION'' (VStr version)]
     @ init_part (have ''HAVE_SYS_EVENT_H'') (sleepy_penguin_init_kqueue H)
     @ init_part (have ''HAVE_SYS_EPOLL_H'') (sleepy_penguin_init_epoll H)
     @ init_part (have ''HAVE_SYS_TIMERFD_H'') (sleepy_penguin_init_timerfd H)
     @ init_part (have ''HAVE_SYS_EVENTFD_H'') (sleepy_penguin_init_eventfd H)
     @ init_part (have ''HAVE_SYS_INOTIFY_H'') (sleepy_penguin_init_inotify H)
     @ init_part (have ''HAVE_SPLICE'') (sleepy_penguin_init_splice H)
     @ init_part (have ''HAVE_COPY_FILE_RANGE'' \<or> have ''__linux__'' \<and> have ''__NR_copy_file_range'')
         sleepy_penguin_init_cfr
     @ sleepy_penguin_init_sendfile"

text \<open>The cache line size that is stored and the definitions made.\<close>

definition Init_sleepy_penguin_ext ::
  "'k pthread_sys \<Rightarrow> int option \<Rightarrow> (string \<Rightarrow> bool) \<Rightarrow> hdr \<Rightarrow> string \<Rightarrow> ('k, 64 word \<times> rb_def list) M" where
  "Init_sleepy_penguin_ext P sysconf have H version =
     bindE (envE (pthread_once P)) (\<lambda>once. bindE (case once of
         Inl err \<Rightarrow> bindE (set_errno err) (\<lambda>_. rb_sys_fail ''pthread_once'')
       | Inr first \<Rightarrow> whenE first (sp_once P)) (\<lambda>_.
     ret (l1_cache_line_size_detect sysconf, init_definitions have H version)))"

section \<open>No constant is defined twice\<close>

text \<open>A header with every macro, on a system with every part.\<close>

definition full_hdr :: hdr where "full_hdr m = Some 0"

abbreviation fewer :: "rb_def list \<Rightarrow> rb_def list \<Rightarrow> bool" where
  "fewer ds es \<equiv> subseq (const_names ds) (const_names es)"

lemma fewer_append: "fewer a b \<Longrightarrow> fewer c d \<Longrightarrow> fewer (a @ c) (b @ d)"
  by (simp add: list_emb_append_mono)

lemma fewer_if_macro: "fewer ds es \<Longrightarrow> fewer (if_macro H m ds) (if_macro full_hdr m es)"
  by (simp add: if_macro_def full_hdr_def)

lemma fewer_init_part: "fewer ds es \<Longrightarrow> fewer (init_part b ds) (init_part True es)"
  by (simp add: init_part_def)

lemma fewer_ifdef: "fewer (ifdef H m (\<lambda>n. DefConst k x (f n))) (ifdef full_hdr m (\<lambda>n. DefConst k x (f n)))"
  by (simp add: full_hdr_def)

lemma const_names_map_const:
  "const_names (map (uconst H m p) xs) = map (Pair m) xs" "const_names (map (iconst H m p) xs) = map (Pair m) xs"
  by (induction xs) (simp_all add: uconst_def iconst_def)

lemma fewer_map_const:
  "fewer (map (uconst H m p) xs) (map (uconst H' m p) xs)" "fewer (map (iconst H m p) xs) (map (iconst H' m p) xs)"
  "fewer [uconst H m p x] [uconst H' m p x]" "fewer [iconst H m p x] [iconst H' m p x]"
  by (simp_all only: const_names_map_const) (simp_all add: uconst_def iconst_def)

lemma fewer_other: "const_names ds = const_names es \<Longrightarrow> fewer ds es"
  by simp

lemma fewer_module: "fewer ds es \<Longrightarrow> fewer (DefModule m # ds) (DefModule m # es)"
  by simp

lemmas fewer_intros = fewer_module fewer_map_const fewer_if_macro fewer_ifdef fewer_init_part fewer_append

lemma fewer_kqueue: "fewer (sleepy_penguin_init_kqueue H) (sleepy_penguin_init_kqueue full_hdr)"
  unfolding sleepy_penguin_init_kqueue_def init_ev_def init_evfilt_def init_note_def init_vq_def append_Cons
  by (intro fewer_intros) simp_all

lemma fewer_inotify: "fewer (sleepy_penguin_init_inotify H) (sleepy_penguin_init_inotify full_hdr)"
  by (simp add: sleepy_penguin_init_inotify_def Let_def IN_def)

lemma fewer_rest:
  "fewer (sleepy_penguin_init_epoll H) (sleepy_penguin_init_epoll full_hdr)"
  "fewer (sleepy_penguin_init_timerfd H) (sleepy_penguin_init_timerfd full_hdr)"
  "fewer (sleepy_penguin_init_eventfd H) (sleepy_penguin_init_eventfd full_hdr)"
  "fewer (sleepy_penguin_init_splice H) (sleepy_penguin_init_splice full_hdr)"
  unfolding sleepy_penguin_init_epoll_def sleepy_penguin_init_timerfd_def sleepy_penguin_init_eventfd_def
  by (intro fewer_append fewer_ifdef; simp)+ (simp add: sleepy_penguin_init_splice_def)

lemma fewer_init: "fewer (init_definitions have H version) (init_definitions (\<lambda>_. True) full_hdr version)"
  unfolding init_definitions_def
  by (intro fewer_append)
    (simp_all add: init_part_def fewer_kqueue fewer_inotify fewer_rest)

lemma const_names_version: "const_names (init_definitions have H v) = const_names (init_definitions have H w)"
  by (simp add: init_definitions_def)

lemma distinct_full: "distinct (const_names (init_definitions (\<lambda>_. True) full_hdr version))"
proof -
  have "distinct (const_names (init_definitions (\<lambda>_. True) full_hdr []))" by code_simp
  then show ?thesis by (simp only: const_names_version [of _ _ version "[]"])
qed

lemma distinct_subseq: "subseq xs ys \<Longrightarrow> distinct ys \<Longrightarrow> distinct xs"
  by (metis subseq_conv_nths distinct_nthsI)

lemma distinct_init: "distinct (const_names (init_definitions have H version))"
  using fewer_init distinct_full by (rule distinct_subseq)

section \<open>Properties\<close>

text \<open>C30: loading the extension.  If \<open>Init_sleepy_penguin_ext\<close> returns, then the pthread key exists (it
  was created now, or by an earlier load), the cache line size it stores is between 1 and 128, and,
  whatever parts the system supports and whatever its headers define, no constant is defined twice:
  every constant Ruby sees has the value of the one definition made for it.\<close>

theorem init_ext_loads:
  assumes "Init_sleepy_penguin_ext P sysconf have H version s = Some (Inr (line, ds), t)"
  shows "(pthread_once P (env s) = (Inr False, env t) \<or>
      (\<exists>e. pthread_once P (env s) = (Inr True, e) \<and> pthread_key_create P e = (None, env t))) \<and>
    0 < unat line \<and> unat line \<le> 128 \<and> distinct (const_names ds) \<and>
    (\<forall>k name v. DefConst k name v \<in> set ds \<longleftrightarrow> defined_const ds k name = Some v)"
proof -
  obtain q e where q: "pthread_once P (env s) = (q, e)" by fastforce
  obtain c e' where c: "pthread_key_create P e = (c, e')" by fastforce
  note run = Init_sleepy_penguin_ext_def sp_once_def run_simps envE_def set_errno_def get_errno_def
    rb_sys_fail_def rb_raise_def
  have key: "q = Inr False \<and> env t = e \<or> q = Inr True \<and> c = None \<and> env t = e'" and
    ds: "line = l1_cache_line_size_detect sysconf" "ds = init_definitions have H version"
    using assms q c by (cases q; cases "q = Inr True"; cases c; auto simp: run)+
  have "distinct (const_names ds)" unfolding ds by (rule distinct_init)
  moreover have "DefConst k name v \<in> set ds \<longleftrightarrow> defined_const ds k name = Some v" for k name v
    using defined_const_distinct [OF calculation] defined_const_in by metis
  moreover have "0 < unat line \<and> unat line \<le> 128" unfolding ds using l1_cache_line_size_range [of sysconf] by blast
  ultimately show ?thesis using key q c by auto
qed

definition sample_pthread :: "nat pthread_sys" where
  "sample_pthread = \<lparr>pthread_once = (\<lambda>e. (Inr True, e)), pthread_key_create = (\<lambda>e. (None, e\<lparr>kern := kern e + 1\<rparr>))\<rparr>"

theorem init_ext_loads_witness:
  "\<exists>ds t. Init_sleepy_penguin_ext sample_pthread (Some 64) (\<lambda>_. True) full_hdr ''4'' (sample_st 0) = Some (Inr (64, ds), t) \<and>
    kern (env t) = 1 \<and> distinct (const_names ds) \<and>
    defined_const ds mSleepyPenguin ''SLEEPY_PENGUIN_VERSION'' = Some (VStr ''4'')"
proof -
  let ?ds = "init_definitions (\<lambda>_. True) full_hdr ''4''" and ?t = "(sample_st 0)\<lparr>env := (env (sample_st 0))\<lparr>kern := 1\<rparr>\<rparr>"
  have run: "Init_sleepy_penguin_ext sample_pthread (Some 64) (\<lambda>_. True) full_hdr ''4'' (sample_st 0) =
      Some (Inr (64, ?ds), ?t)"
    by (simp add: Init_sleepy_penguin_ext_def sp_once_def sample_pthread_def run_simps envE_def sample_defs
        l1_cache_line_size_detect_def L1_CACHE_LINE_MAX_def)
  have "DefConst mSleepyPenguin ''SLEEPY_PENGUIN_VERSION'' (VStr ''4'') \<in> set ?ds"
    by (simp add: init_definitions_def)
  with init_ext_loads [OF run] run show ?thesis by auto
qed

end
