(* ===== verification/SP_Pool.thy ===== *)
theory SP_Pool
  imports SP_Tlsbuf
begin

text \<open>
  The scratch buffers of a thread as a state machine: any sequence of borrowing, using and returning
  buffers, with arbitrary other code in between.  It refines the obvious specification, a set of
  buffers that are out, and it never keeps more memory than one buffer besides those.
\<close>

section \<open>Steps\<close>

datatype pool_act = Borrow "64 word" | Use nat payload | Release nat | Elsewhere

inductive pool_step :: "'k vm \<Rightarrow> 64 word \<Rightarrow> 'k st \<Rightarrow> pool_act \<Rightarrow> 'k st \<Rightarrow> bool" for V line where
  borrow: "n < UINT32_MAX \<Longrightarrow> rb_sp_gettlsbuf V line n s = Some (r, t) \<Longrightarrow> pool_step V line s (Borrow n) t"
| use: "p \<in> lent s \<Longrightarrow> set_ptr p x s = Some (r, t) \<Longrightarrow> pool_step V line s (Use p x) t"
| release: "p \<in> lent s \<Longrightarrow> rb_sp_puttlsbuf (Some p) s = Some (r, t) \<Longrightarrow> pool_step V line s (Release p) t"
| elsewhere: "bufs t = bufs s \<Longrightarrow> pool_step V line s Elsewhere t"

inductive_cases pool_stepE: "pool_step V line s a t"

text \<open>The specification: what is out.\<close>

inductive spec_step :: "nat set \<Rightarrow> pool_act \<Rightarrow> nat set \<Rightarrow> bool" where
  spec_borrow: "p \<notin> L \<Longrightarrow> spec_step L (Borrow n) (insert p L)"
| spec_use: "p \<in> L \<Longrightarrow> spec_step L (Use p x) L"
| spec_release: "p \<in> L \<Longrightarrow> spec_step L (Release p) (L - {p})"
| spec_elsewhere: "spec_step L Elsewhere L"

section \<open>Runs\<close>

inductive runs :: "('s \<Rightarrow> 'a \<Rightarrow> 's \<Rightarrow> bool) \<Rightarrow> 's \<Rightarrow> 'a list \<Rightarrow> 's \<Rightarrow> bool" for step where
  runs_Nil: "runs step s [] s"
| runs_Cons: "step s a t \<Longrightarrow> runs step t as u \<Longrightarrow> runs step s (a # as) u"

inductive_cases runs_NilE: "runs step s [] t"
inductive_cases runs_ConsE: "runs step s (a # as) t"

text \<open>A simulation that keeps an invariant carries over from steps to runs.\<close>

locale simulation =
  fixes step :: "'s \<Rightarrow> 'a \<Rightarrow> 's \<Rightarrow> bool" and spec :: "'t \<Rightarrow> 'a \<Rightarrow> 't \<Rightarrow> bool" and abs :: "'s \<Rightarrow> 't" and inv :: "'s \<Rightarrow> bool"
  assumes sim: "inv s \<Longrightarrow> step s a t \<Longrightarrow> spec (abs s) a (abs t) \<and> inv t"
begin

lemma runs_simulated: "runs step s as t \<Longrightarrow> inv s \<Longrightarrow> runs spec (abs s) as (abs t) \<and> inv t"
proof (induction rule: runs.induct)
  case (runs_Cons s a t as u)
  from sim [OF runs_Cons.prems runs_Cons.hyps(1)] runs_Cons.IH show ?case by (auto intro: runs.intros)
qed (simp add: runs_Nil)

end

interpretation pool: simulation "pool_step V line" spec_step lent "\<lambda>s. mem_ok V \<and> tls_inv s" for V line
proof (unfold_locales, elim conjE)
  fix s a t
  assume V: "mem_ok V" and s: "tls_inv s" and "pool_step V line s a t"
  from this(3) show "spec_step (lent s) a (lent t) \<and> mem_ok V \<and> tls_inv t"
  proof (cases rule: pool_step.cases)
    case (borrow n r)
    from gettlsbuf_lends [OF V s borrow(2), of line] borrow(3) show ?thesis
      by (auto simp: lends_def borrow(1) V intro: spec_step.intros)
  next
    case (use p x r)
    then obtain b where "heap s p = Some b" "buf_type b \<noteq> RB_SP_TLS_READY" by (auto simp: lent_def)
    from store_ptr_frame [OF s this, of x] use show ?thesis
      by (auto simp: V tls_frame_def intro: spec_step.intros)
  next
    case (release p r)
    from tls.put_takes_back [OF s release(2)] release(3) show ?thesis
      by (auto simp: takes_back_def release V intro: spec_step.intros)
  next
    case elsewhere
    from bufs_eq_frame [OF elsewhere(2) s, of "{}"] show ?thesis
      by (auto simp: V elsewhere(1) tls_frame_def intro: spec_step.intros)
  qed
qed

section \<open>Memory\<close>

lemma tls_inv_memory:
  assumes "tls_inv s"
  shows "finite (dom (heap s))" and "card (dom (heap s)) \<le> Suc (card (lent s))"
proof -
  have "dom (heap s) \<subseteq> {..< brk s}" using tls_inv_addr [OF assms] by auto
  then show fin: "finite (dom (heap s))" by (rule finite_subset) simp
  have "lent s \<subseteq> dom (heap s)" by (auto simp: lent_def)
  then have fl: "finite (lent s)" using fin by (rule finite_subset)
  have "dom (heap s) \<subseteq> lent s \<union> set_option (rb_sp_key s)"
    using tls_inv_not_malloced [OF assms] by (force simp: lent_def)
  then have "card (dom (heap s)) \<le> card (lent s \<union> set_option (rb_sp_key s))"
    by (rule card_mono [rotated]) (simp add: fl)
  also have "\<dots> \<le> card (lent s) + card (set_option (rb_sp_key s))" by (rule card_Un_le)
  also have "card (set_option (rb_sp_key s)) \<le> 1" by (cases "rb_sp_key s") simp_all
  finally show "card (dom (heap s)) \<le> Suc (card (lent s))" by simp
qed

section \<open>Properties\<close>

text \<open>C4: any sequence of borrowing, using and returning scratch buffers that a thread can make, starting with
  none, refines the specification in which each borrowing adds a new buffer to the set of those
  that are out and each return removes its own; and at every moment at most one block of memory is
  kept besides the buffers that are out.\<close>

theorem pool_refines_set:
  assumes "mem_ok V" and "heap s = Map.empty" and "rb_sp_key s = None" and "runs (pool_step V line) s acts t"
  shows "runs spec_step {} acts (lent t) \<and> tls_inv t \<and> finite (lent t) \<and> card (dom (heap t)) \<le> Suc (card (lent t))"
proof -
  have "tls_inv s" and "lent s = {}" using assms(2,3) by (simp_all add: tls_inv_def lent_def)
  with pool.runs_simulated [OF assms(4)] assms(1) have t: "runs spec_step {} acts (lent t)" "tls_inv t" by auto
  have "lent t \<subseteq> dom (heap t)" by (auto simp: lent_def)
  with t tls_inv_memory [OF t(2)] show ?thesis by (auto intro: finite_subset)
qed

theorem pool_refines_set_witness:
  "\<exists>t. runs (pool_step sample_vm 64) (sample_st 0) [Borrow 100, Borrow 50, Elsewhere] t \<and>
     runs spec_step {} [Borrow 100, Borrow 50, Elsewhere] (lent t) \<and> card (dom (heap t)) \<le> Suc (card (lent t))"
proof -
  have n: "(100 :: 64 word) < UINT32_MAX" "(50 :: 64 word) < UINT32_MAX" by (simp_all add: UINT32_MAX_def)
  obtain r u where u: "rb_sp_gettlsbuf sample_vm 64 100 (sample_st 0) = Some (Inr r, u)" "tls_inv u"
    using gettlsbuf_lends [OF sample_mem_ok sample_pool(1) n(1), of 64 0] unfolding lends_def by blast
  obtain q t where t: "rb_sp_gettlsbuf sample_vm 64 50 u = Some (Inr q, t)"
    using gettlsbuf_lends [OF sample_mem_ok u(2) n(2)] by blast
  have run: "runs (pool_step sample_vm 64) (sample_st 0) [Borrow 100, Borrow 50, Elsewhere] t"
    by (rule runs_Cons, rule pool_step.borrow [OF n(1) u(1)], rule runs_Cons, rule pool_step.borrow [OF n(2) t],
        rule runs_Cons, rule pool_step.elsewhere, rule refl, rule runs_Nil)
  from pool_refines_set [OF sample_mem_ok _ _ run] run show ?thesis by (auto simp: sample_st_def)
qed

end
