(* ===== verification/Spec2Isabelle.thy ===== *)
theory Spec2Isabelle
  imports SP_Init SP_Pool
begin

text \<open>
  A verification development for the C extension of sleepy\_penguin, which gives Ruby the Linux event
  interfaces (epoll, eventfd, timerfd, inotify), the copying calls (splice, tee, copy\_file\_range,
  sendfile) and kqueue.  The sources are under src/ext/sleepy\_penguin.

  \<^bold>\<open>The program.\<close>  Every part wraps one kernel interface.  A constructor asks for a descriptor and hands it
  to \<open>IO.new\<close>; a method converts its arguments, makes a system call with the VM's lock released,
  restarts it after signals with what is left of the timeout, and converts the results.  The parts
  share util.c (flags, file numbers, waiting), value2timespec.h (times) and the scratch buffers of
  init.c: one buffer per thread that is lent to a call and given back by an \<open>rb_ensure\<close> handler, while
  nested calls get buffers of their own.  epoll, kqueue and inotify put their kernel structures
  into such a buffer and call a Ruby block on what they read back from it.

  \<^bold>\<open>The model.\<close>  A C function is an action: from a state it never returns (\<^term>\<open>None\<close>) or gives an error
  or a value with the state it leaves.  Errors are Ruby exceptions, failed assertions and undefined
  behaviour, so that a leak, a dangling pointer or a store past a buffer is an outcome that a
  theorem can exclude.  The state is the heap of scratch buffers, the pthread key and the
  environment: Ruby's IO objects, \<open>errno\<close> and a kernel state of any type.  System calls, the garbage
  collector, signal handlers and other code of the VM are parameters (records of functions over the
  environment); what a theorem needs of them is a named hypothesis, with a concrete instance in
  \<open>SP_Sample\<close> and the sample sections.  C integers are words where they can wrap; loops are \<open>loopE\<close>,
  so that a loop that does not end is the value \<^term>\<open>None\<close> and returning is a theorem.

  \<^item> \<open>SP_Prelude\<close>, \<open>SP_Runtime\<close>: actions, loops and frames; Ruby values, exceptions and conversions, the C
    structs, the state, the VM.
  \<^item> \<open>SP_Util\<close> (util.c, sleepy\_penguin.h): flag arguments are bit unions (locale \<open>flag_union\<close>); creation of
    descriptors with one retry after a collection (\<open>fd_source\<close>); the restart loop that epoll and
    kqueue share (\<open>restart_loop\<close>).
  \<^item> \<open>SP_Tlsbuf\<close> (init.c): the buffer pool as an interface with an exclusiveness law and a rule for
    calls that borrow inside \<open>rb_ensure\<close>; yielding the events a buffer holds (\<open>event_buffer\<close>).
  \<^item> \<open>SP_Pool\<close>: the pool as a state machine (step relations \<open>pool_step\<close>, \<open>spec_step\<close>); its runs refine a set of buffers
    that are out and keep at most one block besides (locale \<open>simulation\<close>).
  \<^item> \<open>SP_Epoll\<close> (epoll.c, missing\_epoll.h): waits give their buffers back on every path and nest; the block
    sees the kernel's events; the remaining time; interrupted waits end if interruptions do.
  \<^item> \<open>SP_Kqueue\<close>, \<open>SP_Kevent\<close> (kqueue.c): the same for kevent, whose buffer also carries the changes: these reach
    the kernel unchanged and only once.
  \<^item> \<open>SP_Double\<close>, \<open>SP_Timespec\<close> (value2timespec.h, missing\_clock\_gettime.h): binary64 rounding; accuracy, range
    and round trip of the time conversions.
  \<^item> \<open>SP_Fileio\<close>, \<open>SP_Eventfd\<close>, \<open>SP_Timerfd\<close> (eventfd.c, timerfd.c): the waiting loop (\<open>wait_retry\<close>); the methods refine
    a counter, EAGAIN being what the kernel answers on a non-blocking descriptor only, so that making
    it non-blocking is part of what is proved; an armed timer can be read back and armed again.
  \<^item> \<open>SP_Inotify\<close> (inotify.c, missing\_inotify.h): the records the kernel writes are delivered decoded, in order;
    event names and flags round trip.
  \<^item> \<open>SP_Copy\<close> (splice.c, cfr.c, sp\_copy.h): each call refines one that is never interrupted (\<open>restarted_call\<close>,
    \<open>copy_loop\<close>).
  \<^item> \<open>SP_Sendfile\<close> (sendfile.c): the BSD adapter and the emulation compared with the sendfile of Linux;
    the attempts \<open>__lsf\<close> makes and what their outcome is (\<open>sf_outcome\<close>).
  \<^item> \<open>SP_Define\<close>, \<open>SP_Init\<close> (the \<open>sleepy_penguin_init_\<close> functions, \<open>Init_sleepy_penguin_ext\<close>): the definitions made
    at load time; no constant is defined twice, and a load that returns has its pthread key.

  \<^bold>\<open>Defects.\<close>  Where the code does not do what it means to, the model follows the code and a theorem shows
  the behaviour: the stale pthread key after a failed allocation, the buffers that inotify's take
  and a kevent on a closed kqueue never give back, the resize that always raises, changes given as
  arrays, times that are not normalised, a descriptor that is refreshed and not used, and the data
  that the sendfile emulation loses.

  \<^bold>\<open>Bounds.\<close>  The limits \<open>maxevents_limit\<close> and \<open>kevent_limit\<close> are the largest counts whose buffer fits the 32-bit
  capacity field; beyond them allocation raises.  \<open>wait_ok\<close> keeps a timeout below half the range of
  \<open>time_t\<close>, beyond which the deadline overflows.  \<open>uninterrupted\<close> is bounded by the number of attempts,
  which may be any.  What C leaves uninitialised is a value that would show if it were used: a new
  block has the type of a buffer that is not lent, and a per-thread structure that has been sized
  has no events and nil for its objects until they are stored; \<open>expire_at\<close> without a timeout and the other
  fields are zeros.  The conversion of a double out of range is the one of x86-64.  Offsets, lengths and times have the sizes of a 64-bit system.

  \<^bold>\<open>Not modelled.\<close>  Objects that define \<open>to_int\<close>; the encoding of path strings; the Rubinius case of
  \<open>unpack_event\<close>; the version of \<open>ev_set_struct\<close> for old Rubies, which does not compile (the model
  has the raising one in its place); signals that arrive in the middle of a system call other than
  as its failure with EINTR: interrupts are served when the call has returned; the macros in missing\_rb\_*.h, which only keep books for the VM; the Ruby layer under
  src/lib (the Epoll and Kqueue classes and keyword-argument wrappers), which is the next step of
  this development; build scripts and tests.
\<close>

end
